theory Spec2Isabelle
  imports Complex_Main "HOL-Library.Word" "HOL-Library.Sublist"
begin

section \<open>Tool-call list of the VoiceRAG assistant frontend (App.tsx)\<close>

text \<open>
  The React state \<open>toolCalls\<close> is an array of entries; every handler passes an updater
  \<open>prev => ...\<close> to \<open>setToolCalls\<close>. Each updater is modelled as a function on the list.
  The optional fields of an entry are options (\<open>None\<close>: the property is absent). Values of
  TypeScript type \<open>any\<close> and \<open>number\<close> are kept abstract as type variables.
\<close>

datatype tool_status = Started | Executing | Completed | Error

record ('any, 'num) tool_call =
  id_tc :: string
  function_name :: string
  status :: tool_status
  arguments :: "'any option"
  result :: "'any option"
  error :: "string option"
  execution_time :: "'num option"
  timestamp :: 'num

definition onToolCallStarted ::
  "string \<Rightarrow> string \<Rightarrow> 'num \<Rightarrow> ('any, 'num) tool_call list \<Rightarrow> ('any, 'num) tool_call list" where
  "onToolCallStarted call_id fname ts prev =
     prev @ [\<lparr>id_tc = call_id, function_name = fname, status = Started,
              arguments = None, result = None, error = None, execution_time = None,
              timestamp = ts\<rparr>]"

definition onToolCallArguments ::
  "string \<Rightarrow> 'any \<Rightarrow> ('any, 'num) tool_call list \<Rightarrow> ('any, 'num) tool_call list" where
  "onToolCallArguments call_id args prev =
     map (\<lambda>call. if id_tc call = call_id then call\<lparr>arguments := Some args\<rparr> else call) prev"

definition onToolCallExecuting ::
  "string \<Rightarrow> ('any, 'num) tool_call list \<Rightarrow> ('any, 'num) tool_call list" where
  "onToolCallExecuting call_id prev =
     map (\<lambda>call. if id_tc call = call_id then call\<lparr>status := Executing\<rparr> else call) prev"

definition onToolCallCompleted ::
  "string \<Rightarrow> 'any \<Rightarrow> 'num \<Rightarrow> ('any, 'num) tool_call list \<Rightarrow> ('any, 'num) tool_call list" where
  "onToolCallCompleted call_id res exec_time prev =
     map (\<lambda>call. if id_tc call = call_id
                  then call\<lparr>status := Completed, result := Some res,
                            execution_time := Some exec_time\<rparr>
                  else call) prev"

definition onToolCallError ::
  "string \<Rightarrow> string \<Rightarrow> ('any, 'num) tool_call list \<Rightarrow> ('any, 'num) tool_call list" where
  "onToolCallError call_id err prev =
     map (\<lambda>call. if id_tc call = call_id then call\<lparr>status := Error, error := Some err\<rparr>
                  else call) prev"

text \<open>
  The frame of an updater \<open>h\<close> that rewrites the entries named \<open>call_id\<close> with \<open>u\<close>: same
  length, same ids in the same order, every entry with another id untouched, every entry
  with that id replaced by its image under \<open>u\<close>.
\<close>

definition updates_only ::
  "string \<Rightarrow> (('any, 'num) tool_call \<Rightarrow> ('any, 'num) tool_call) \<Rightarrow>
   ('any, 'num) tool_call list \<Rightarrow> ('any, 'num) tool_call list \<Rightarrow> bool" where
  "updates_only call_id u prev new \<longleftrightarrow>
     length new = length prev \<and>
     map id_tc new = map id_tc prev \<and>
     (\<forall>i < length prev.
        (id_tc (prev ! i) = call_id \<longrightarrow> new ! i = u (prev ! i)) \<and>
        (id_tc (prev ! i) \<noteq> call_id \<longrightarrow> new ! i = prev ! i))"

section \<open>JavaScript strings and the browser's base64 functions\<close>

text \<open>
  A JavaScript string is a sequence of UTF-16 code units; a code unit is modelled as a
  natural number (below 65536 in any string the engine can hold). \<open>btoa\<close> and \<open>atob\<close>
  are functions of the browser, not of the repository; they are modelled after the HTML
  standard: \<open>btoa\<close> throws InvalidCharacterError (\<open>None\<close>) when a code unit exceeds 0xFF and
  otherwise base64-encodes the code units as bytes; \<open>atob\<close> is the forgiving base64 decoder
  (ASCII whitespace removed, up to two padding characters removed when the length is a
  multiple of four, failure when the remaining length is 1 modulo 4 or a character is
  outside the alphabet, left-over bits discarded).
\<close>

type_synonym jsstring = "nat list"

text \<open>An ASCII literal as a JavaScript string.\<close>

definition js :: "string \<Rightarrow> jsstring" where
  "js s = map of_char s"

definition b64_char :: "nat \<Rightarrow> nat" where
  "b64_char v =
     (if v < 26 then 65 + v
      else if v < 52 then 97 + (v - 26)
      else if v < 62 then 48 + (v - 52)
      else if v = 62 then 43 else 47)"

definition b64_value :: "nat \<Rightarrow> nat option" where
  "b64_value c =
     (if 65 \<le> c \<and> c \<le> 90 then Some (c - 65)
      else if 97 \<le> c \<and> c \<le> 122 then Some (c - 97 + 26)
      else if 48 \<le> c \<and> c \<le> 57 then Some (c - 48 + 52)
      else if c = 43 then Some 62
      else if c = 47 then Some 63
      else None)"

fun b64_encode :: "nat list \<Rightarrow> jsstring" where
  "b64_encode (a # b # c # rest) =
     b64_char (a div 4) # b64_char ((a mod 4) * 16 + b div 16) #
     b64_char ((b mod 16) * 4 + c div 64) # b64_char (c mod 64) # b64_encode rest"
| "b64_encode [a, b] =
     [b64_char (a div 4), b64_char ((a mod 4) * 16 + b div 16), b64_char ((b mod 16) * 4), 61]"
| "b64_encode [a] = [b64_char (a div 4), b64_char ((a mod 4) * 16), 61, 61]"
| "b64_encode [] = []"

definition btoa :: "jsstring \<Rightarrow> jsstring option" where
  "btoa s = (if list_ex (\<lambda>c. 255 < c) s then None else Some (b64_encode s))"

definition is_ascii_whitespace :: "nat \<Rightarrow> bool" where
  "is_ascii_whitespace c \<longleftrightarrow> c = 9 \<or> c = 10 \<or> c = 12 \<or> c = 13 \<or> c = 32"

definition strip_padding :: "jsstring \<Rightarrow> jsstring" where
  "strip_padding d =
     (if length d mod 4 = 0 \<and> d \<noteq> [] \<and> last d = 61
      then (if butlast d \<noteq> [] \<and> last (butlast d) = 61 then butlast (butlast d)
            else butlast d)
      else d)"

fun b64_decode :: "nat list \<Rightarrow> nat list" where
  "b64_decode (w # x # y # z # rest) =
     (w * 4 + x div 16) # ((x mod 16) * 16 + y div 4) # ((y mod 4) * 64 + z) # b64_decode rest"
| "b64_decode [w, x, y] = [w * 4 + x div 16, (x mod 16) * 16 + y div 4]"
| "b64_decode [w, x] = [w * 4 + x div 16]"
| "b64_decode [w] = []"
| "b64_decode [] = []"

fun b64_values :: "jsstring \<Rightarrow> nat list option" where
  "b64_values [] = Some []"
| "b64_values (c # cs) =
     (case b64_value c of None \<Rightarrow> None
      | Some v \<Rightarrow> (case b64_values cs of None \<Rightarrow> None | Some vs \<Rightarrow> Some (v # vs)))"

definition atob :: "jsstring \<Rightarrow> jsstring option" where
  "atob s =
     (let d = strip_padding (filter (\<lambda>c. \<not> is_ascii_whitespace c) s)
      in if length d mod 4 = 1 then None
         else (case b64_values d of None \<Rightarrow> None | Some vs \<Rightarrow> Some (b64_decode vs)))"

section \<open>Voice Live Avatar client (app.js): utilities\<close>

text \<open>
  An ArrayBuffer is its list of bytes. \<open>String.fromCharCode\<close> of a byte is the code unit
  of the same value; a store into a \<open>Uint8Array\<close> keeps the value modulo 256.
\<close>

type_synonym array_buffer = "8 word list"

definition arrayBufferToBase64 :: "array_buffer \<Rightarrow> jsstring option" where
  "arrayBufferToBase64 buffer = btoa (map unat buffer)"

definition base64ToArrayBuffer :: "jsstring \<Rightarrow> array_buffer option" where
  "base64ToArrayBuffer base64 =
     (case atob base64 of None \<Rightarrow> None
      | Some binary \<Rightarrow> Some (map (\<lambda>c. (word_of_nat c :: 8 word)) binary))"

section \<open>Assistant audio playback (handleAudioDelta)\<close>

text \<open>
  The playback state is the pair of globals \<open>playbackContext\<close> (here: whether it is set) and
  \<open>nextPlaybackTime\<close>, together with the calls \<open>source.start(t)\<close> made so far, each recorded
  with its start time and the number of frames of its buffer. Times are JavaScript numbers;
  the model keeps them in any linear order \<open>'t\<close> and takes the addition of the source's
  \<open>+=\<close> and the browser's \<open>buffer.duration\<close> (frames over the sample rate) as parameters,
  so that nothing depends on how the sum is rounded. The current time of the audio context
  is supplied with each message. Falsy data (\<open>undefined\<close>, \<open>null\<close>, the empty string) is the
  empty string. An exception leaves the handler before anything is scheduled: \<open>atob\<close> on malformed data, \<open>new Int16Array\<close> on an odd number of bytes,
  \<open>createBuffer\<close> on zero frames.
\<close>

record 't playback =
  playbackContext :: bool
  nextPlaybackTime :: 't
  scheduled :: "('t \<times> nat) list"

definition initial_playback :: "('t::{linorder,zero}) playback" where
  "initial_playback = \<lparr>playbackContext = False, nextPlaybackTime = 0, scheduled = []\<rparr>"

definition handleAudioDelta ::
  "('t \<Rightarrow> 't \<Rightarrow> 't) \<Rightarrow> (nat \<Rightarrow> 't) \<Rightarrow> jsstring \<Rightarrow> 't \<Rightarrow>
   ('t::{linorder,zero}) playback \<Rightarrow> 't playback" where
  "handleAudioDelta add duration base64Data now st =
     (if base64Data = [] then st
      else
        let st1 = (if \<not> playbackContext st
                   then st\<lparr>playbackContext := True, nextPlaybackTime := 0\<rparr> else st)
        in case base64ToArrayBuffer base64Data of
             None \<Rightarrow> st1
           | Some arrayBuffer \<Rightarrow>
               if odd (length arrayBuffer) then st1
               else
                 let frames = length arrayBuffer div 2
                 in if frames = 0 then st1
                    else
                      let start = (if nextPlaybackTime st1 < now then now
                                   else nextPlaybackTime st1)
                      in st1\<lparr>scheduled := scheduled st1 @ [(start, frames)],
                              nextPlaybackTime := add start (duration frames)\<rparr>)"

text \<open>A sequence of \<open>audio_data\<close> messages, each with the context's current time on arrival.\<close>

fun audio_messages ::
  "('t \<Rightarrow> 't \<Rightarrow> 't) \<Rightarrow> (nat \<Rightarrow> 't) \<Rightarrow> (jsstring \<times> 't) list \<Rightarrow>
   ('t::{linorder,zero}) playback \<Rightarrow> 't playback" where
  "audio_messages add duration [] st = st"
| "audio_messages add duration ((d, now) # ms) st =
     audio_messages add duration ms (handleAudioDelta add duration d now st)"

text \<open>
  A schedule is gapless-or-later: every call starts no earlier than the call before it,
  and no earlier than that call's start plus its buffer's duration.
\<close>

fun ordered_schedule :: "('t \<Rightarrow> 't \<Rightarrow> 't) \<Rightarrow> (nat \<Rightarrow> 't) \<Rightarrow> (('t::linorder) \<times> nat) list \<Rightarrow> bool" where
  "ordered_schedule add duration (a # b # rest) \<longleftrightarrow>
     fst a \<le> fst b \<and> add (fst a) (duration (snd a)) \<le> fst b \<and>
     ordered_schedule add duration (b # rest)"
| "ordered_schedule add duration [a] \<longleftrightarrow> True"
| "ordered_schedule add duration [] \<longleftrightarrow> True"

text \<open>The invariant of the playback state between two messages.\<close>

definition playback_inv ::
  "('t \<Rightarrow> 't \<Rightarrow> 't) \<Rightarrow> (nat \<Rightarrow> 't) \<Rightarrow> ('t::{linorder,zero}) playback \<Rightarrow> bool" where
  "playback_inv add duration st \<longleftrightarrow>
     ordered_schedule add duration (scheduled st) \<and>
     (scheduled st \<noteq> [] \<longrightarrow> playbackContext st \<and>
        nextPlaybackTime st =
          add (fst (last (scheduled st))) (duration (snd (last (scheduled st)))))"

text \<open>
  The number of frames an \<open>audio_data\<close> message decodes to: none when the data is falsy, is
  not base64, or gives an odd number of bytes or no byte at all.
\<close>

definition decoded_frames :: "jsstring \<Rightarrow> nat option" where
  "decoded_frames base64Data =
     (if base64Data = [] then None
      else case base64ToArrayBuffer base64Data of
             None \<Rightarrow> None
           | Some arrayBuffer \<Rightarrow>
               if odd (length arrayBuffer) \<or> arrayBuffer = [] then None
               else Some (length arrayBuffer div 2))"

section \<open>WebSocket video relay (MediaSource Extensions)\<close>

text \<open>
  The globals of the relay: \<open>mediaSource\<close> (\<open>None\<close> for \<open>null\<close>, otherwise the object's
  \<open>readyState\<close>), \<open>sourceBuffer\<close> (\<open>None\<close> for \<open>null\<close>, otherwise the object's \<open>updating\<close>
  flag), the queue of decoded chunks and the chunk counter. The source buffer is always
  created on the media source the global names, and both globals are cleared together, so
  one media source and one source buffer describe the objects the code can reach.
  Every call of \<open>sourceBuffer.appendBuffer\<close> is recorded with its argument and with the
  values of \<open>sourceBuffer.updating\<close> and \<open>mediaSource.readyState\<close> at the moment of the call.
  Whether the browser accepts the data (and sets \<open>updating\<close>) or throws (quota exceeded,
  media element in error) is the browser's choice, passed in as \<open>accepts\<close>.
\<close>

datatype ms_ready_state = MsClosed | MsOpen | MsEnded

record append_call =
  chunk :: array_buffer
  updating_at_call :: bool
  ready_state_at_call :: ms_ready_state

record video_state =
  mediaSource :: "ms_ready_state option"
  sourceBuffer :: "bool option"
  videoChunksQueue :: "array_buffer list"
  videoChunkCount :: nat
  appendCalls :: "append_call list"

definition initial_video :: video_state where
  "initial_video = \<lparr>mediaSource = None, sourceBuffer = None, videoChunksQueue = [],
                     videoChunkCount = 0, appendCalls = []\<rparr>"

definition processVideoChunkQueue :: "bool \<Rightarrow> video_state \<Rightarrow> video_state" where
  "processVideoChunkQueue accepts st =
     (case sourceBuffer st of
        None \<Rightarrow> st
      | Some updating \<Rightarrow>
          if updating then st
          else (case mediaSource st of
                  None \<Rightarrow> st
                | Some rs \<Rightarrow>
                    if rs \<noteq> MsOpen then st
                    else (case videoChunksQueue st of
                            [] \<Rightarrow> st
                          | next # rest \<Rightarrow>
                              st\<lparr>videoChunksQueue := rest,
                                 appendCalls := appendCalls st @
                                   [\<lparr>chunk = next, updating_at_call = updating,
                                     ready_state_at_call = rs\<rparr>],
                                 sourceBuffer := Some accepts\<rparr>)))"

definition handleVideoChunk :: "jsstring \<Rightarrow> bool \<Rightarrow> video_state \<Rightarrow> video_state" where
  "handleVideoChunk base64Data accepts st =
     (if base64Data = [] then st
      else
        let st1 = st\<lparr>videoChunkCount := videoChunkCount st + 1\<rparr>
        in case atob base64Data of
             None \<Rightarrow> st1
           | Some binaryString \<Rightarrow>
               processVideoChunkQueue accepts
                 (st1\<lparr>videoChunksQueue := videoChunksQueue st1 @
                        [map (\<lambda>c. (word_of_nat c :: 8 word)) binaryString]\<rparr>))"

text \<open>
  \<open>cleanupWebSocketVideo\<close> empties the queue and clears both globals; its call of
  \<open>endOfStream\<close> acts on the media source that is dropped here. In \<open>handleVideoChunk\<close> falsy
  data is the empty string, and an exception of \<open>atob\<close> is caught before anything is queued.
\<close>

definition cleanupWebSocketVideo :: "video_state \<Rightarrow> video_state" where
  "cleanupWebSocketVideo st = st\<lparr>videoChunksQueue := [], sourceBuffer := None, mediaSource := None\<rparr>"

definition setupWebSocketVideoPlayback :: "bool \<Rightarrow> video_state \<Rightarrow> video_state" where
  "setupWebSocketVideoPlayback supported st =
     (let st1 = cleanupWebSocketVideo st
      in if \<not> supported then st1 else st1\<lparr>mediaSource := Some MsClosed\<rparr>)"

text \<open>The \<open>sourceopen\<close> listener; \<open>created\<close> tells whether \<open>addSourceBuffer\<close> returns or throws.\<close>

definition on_sourceopen :: "bool \<Rightarrow> video_state \<Rightarrow> video_state" where
  "on_sourceopen created st =
     (case mediaSource st of
        Some MsOpen \<Rightarrow> if created then st\<lparr>sourceBuffer := Some False\<rparr> else st
      | _ \<Rightarrow> st)"

text \<open>
  What can happen to the relay: a \<open>video_data\<close> message; the end of an append on the current
  source buffer (the browser clears \<open>updating\<close>, then runs the \<open>updateend\<close> listener); the
  \<open>updateend\<close> listener of a source buffer that the globals no longer name; the opening of
  the media source followed by its listener; any other change of \<open>readyState\<close>; set-up and
  clean-up of the relay.
\<close>

datatype video_event =
    VideoData jsstring bool
  | UpdateEnd bool
  | StaleUpdateEnd bool
  | SourceOpen bool
  | ReadyState ms_ready_state
  | Setup bool
  | Cleanup

fun video_step :: "video_event \<Rightarrow> video_state \<Rightarrow> video_state" where
  "video_step (VideoData d accepts) st = handleVideoChunk d accepts st"
| "video_step (UpdateEnd accepts) st =
     processVideoChunkQueue accepts
       (case sourceBuffer st of None \<Rightarrow> st | Some _ \<Rightarrow> st\<lparr>sourceBuffer := Some False\<rparr>)"
| "video_step (StaleUpdateEnd accepts) st = processVideoChunkQueue accepts st"
| "video_step (SourceOpen created) st =
     on_sourceopen created
       (case mediaSource st of None \<Rightarrow> st | Some _ \<Rightarrow> st\<lparr>mediaSource := Some MsOpen\<rparr>)"
| "video_step (ReadyState rs) st =
     (case mediaSource st of None \<Rightarrow> st | Some _ \<Rightarrow> st\<lparr>mediaSource := Some rs\<rparr>)"
| "video_step (Setup supported) st = setupWebSocketVideoPlayback supported st"
| "video_step Cleanup st = cleanupWebSocketVideo st"

fun video_run :: "video_event list \<Rightarrow> video_state \<Rightarrow> video_state" where
  "video_run [] st = st"
| "video_run (e # es) st = video_run es (video_step e st)"

text \<open>The chunks received, in order of arrival: what \<open>handleVideoChunk\<close> pushed on the queue.\<close>

fun received_chunks :: "video_event list \<Rightarrow> array_buffer list" where
  "received_chunks [] = []"
| "received_chunks (VideoData d accepts # es) =
     (if d = [] then received_chunks es
      else case atob d of
             None \<Rightarrow> received_chunks es
           | Some binaryString \<Rightarrow>
               map (\<lambda>c. (word_of_nat c :: 8 word)) binaryString # received_chunks es)"
| "received_chunks (e # es) = received_chunks es"

definition append_guarded :: "append_call \<Rightarrow> bool" where
  "append_guarded c \<longleftrightarrow> \<not> updating_at_call c \<and> ready_state_at_call c = MsOpen"

text \<open>The invariant of the relay, against the chunks received so far.\<close>

definition video_inv :: "array_buffer list \<Rightarrow> video_state \<Rightarrow> bool" where
  "video_inv received st \<longleftrightarrow>
     list_all append_guarded (appendCalls st) \<and>
     subseq (map chunk (appendCalls st) @ videoChunksQueue st) received"

section \<open>Microphone capture: the PCM16 conversion of the audio worklet\<close>

text \<open>
  A JavaScript number is NaN, an infinity, or a finite value. The samples are 32-bit
  floats, so every finite sample is a rational with a 24-bit significand; its products
  with 0x8000 and 0x7FFF have at most 40 significant bits and are computed exactly in
  double precision. The finite values are therefore modelled by rationals with exact
  arithmetic. A store into an \<open>Int16Array\<close> converts with ToInt16: NaN and the infinities
  become 0, a finite value is truncated towards zero and reduced modulo \<open>2^16\<close>.
\<close>

datatype jsnum = NaN | NegInf | Fin rat | PosInf

fun js_less :: "jsnum \<Rightarrow> jsnum \<Rightarrow> bool" where
  "js_less NaN y = False"
| "js_less x NaN = False"
| "js_less PosInf y = False"
| "js_less x NegInf = False"
| "js_less NegInf y = True"
| "js_less x PosInf = True"
| "js_less (Fin a) (Fin b) = (a < b)"

definition js_le :: "jsnum \<Rightarrow> jsnum \<Rightarrow> bool" where
  "js_le x y \<longleftrightarrow> x \<noteq> NaN \<and> y \<noteq> NaN \<and> \<not> js_less y x"

definition math_min :: "jsnum \<Rightarrow> jsnum \<Rightarrow> jsnum" where
  "math_min x y = (if x = NaN \<or> y = NaN then NaN else if js_less y x then y else x)"

definition math_max :: "jsnum \<Rightarrow> jsnum \<Rightarrow> jsnum" where
  "math_max x y = (if x = NaN \<or> y = NaN then NaN else if js_less x y then y else x)"

text \<open>The product of a number with a finite constant.\<close>

fun js_times :: "jsnum \<Rightarrow> rat \<Rightarrow> jsnum" where
  "js_times NaN k = NaN"
| "js_times (Fin a) k = Fin (a * k)"
| "js_times PosInf k = (if 0 < k then PosInf else if k < 0 then NegInf else NaN)"
| "js_times NegInf k = (if 0 < k then NegInf else if k < 0 then PosInf else NaN)"

definition truncate_rat :: "rat \<Rightarrow> int" where
  "truncate_rat q = (if q < 0 then \<lceil>q\<rceil> else \<lfloor>q\<rfloor>)"

fun to_int16 :: "jsnum \<Rightarrow> 16 word" where
  "to_int16 (Fin q) = word_of_int (truncate_rat q)"
| "to_int16 x = 0"

text \<open>The body of the inner loop of \<open>PCM16Processor.process\<close>, for one buffered sample.\<close>

definition pcm16_sample :: "jsnum \<Rightarrow> 16 word" where
  "pcm16_sample x =
     (let s = math_max (Fin (- 1)) (math_min (Fin 1) x)
      in to_int16 (if js_less s (Fin 0) then js_times s 32768 else js_times s 32767))"

text \<open>
  The processor: samples fill a buffer of \<open>bufferSize\<close> floats; when it is full the whole
  buffer is converted and posted, and a fresh buffer is started. The buffer is modelled by
  its filled part, so \<open>offset\<close> is its length.
\<close>

record pcm16_processor =
  bufferSize :: nat
  buffer :: "jsnum list"
  posted :: "16 word list list"

definition new_processor :: pcm16_processor where
  "new_processor = \<lparr>bufferSize = 2400, buffer = [], posted = []\<rparr>"

fun process :: "jsnum list \<Rightarrow> pcm16_processor \<Rightarrow> pcm16_processor" where
  "process [] p = p"
| "process (x # data) p =
     (let b = buffer p @ [x]
      in if length b \<ge> bufferSize p
         then process data (p\<lparr>buffer := [], posted := posted p @ [map pcm16_sample b]\<rparr>)
         else process data (p\<lparr>buffer := b\<rparr>))"

text \<open>
  The conversion in the words of the specification: clamp to \<open>[-1, 1]\<close>, scale the negative
  samples by 0x8000 and the others by 0x7FFF, and keep the integer part.
\<close>

definition clamp_scale :: "rat \<Rightarrow> int" where
  "clamp_scale q =
     (let s = max (- 1) (min 1 q)
      in truncate_rat (if s < 0 then s * 32768 else s * 32767))"

section \<open>Avatar SDP exchange: JSON text of a session description\<close>

text \<open>
  \<open>JSON.stringify\<close> and \<open>JSON.parse\<close> belong to the JavaScript engine; they are modelled
  after ECMA-262 on the values the exchange uses. A session description serialises (through
  its \<open>toJSON\<close>) as an object with the members \<open>type\<close> and \<open>sdp\<close>, both strings. Quoting a
  string escapes the quotation mark, the reverse solidus and the control characters
  (\<open>\b \t \n \f \r\<close> by name, the others as \<open>\u00xx\<close>), escapes a surrogate that is not part
  of a pair as \<open>\udxxx\<close>, and copies every other code unit.
\<close>

datatype sdp_type = Offer | Pranswer | Answer | Rollback

record session_description =
  sd_type :: sdp_type
  sd_sdp :: jsstring

fun sdp_type_string :: "sdp_type \<Rightarrow> jsstring" where
  "sdp_type_string Offer = js ''offer''"
| "sdp_type_string Pranswer = js ''pranswer''"
| "sdp_type_string Answer = js ''answer''"
| "sdp_type_string Rollback = js ''rollback''"

definition sdp_type_of_string :: "jsstring \<Rightarrow> sdp_type option" where
  "sdp_type_of_string s =
     (if s = js ''offer'' then Some Offer
      else if s = js ''pranswer'' then Some Pranswer
      else if s = js ''answer'' then Some Answer
      else if s = js ''rollback'' then Some Rollback
      else None)"

definition hex_char :: "nat \<Rightarrow> nat" where
  "hex_char d = (if d < 10 then 48 + d else 87 + d)"

definition hex_value :: "nat \<Rightarrow> nat option" where
  "hex_value c =
     (if 48 \<le> c \<and> c \<le> 57 then Some (c - 48)
      else if 97 \<le> c \<and> c \<le> 102 then Some (c - 87)
      else if 65 \<le> c \<and> c \<le> 70 then Some (c - 55)
      else None)"

definition unicode_escape :: "nat \<Rightarrow> jsstring" where
  "unicode_escape c =
     [92, 117, hex_char (c div 4096 mod 16), hex_char (c div 256 mod 16),
      hex_char (c div 16 mod 16), hex_char (c mod 16)]"

definition is_high_surrogate :: "nat \<Rightarrow> bool" where
  "is_high_surrogate c \<longleftrightarrow> 55296 \<le> c \<and> c \<le> 56319"

definition is_low_surrogate :: "nat \<Rightarrow> bool" where
  "is_low_surrogate c \<longleftrightarrow> 56320 \<le> c \<and> c \<le> 57343"

fun quote_chars :: "jsstring \<Rightarrow> jsstring" where
  "quote_chars [] = []"
| "quote_chars (c # cs) =
     (if c = 8 then 92 # 98 # quote_chars cs
      else if c = 9 then 92 # 116 # quote_chars cs
      else if c = 10 then 92 # 110 # quote_chars cs
      else if c = 12 then 92 # 102 # quote_chars cs
      else if c = 13 then 92 # 114 # quote_chars cs
      else if c = 34 then 92 # 34 # quote_chars cs
      else if c = 92 then 92 # 92 # quote_chars cs
      else if c < 32 then unicode_escape c @ quote_chars cs
      else if is_high_surrogate c then
        (case cs of
           [] \<Rightarrow> unicode_escape c
         | d # ds \<Rightarrow> if is_low_surrogate d then c # d # quote_chars ds
                     else unicode_escape c @ quote_chars cs)
      else if is_low_surrogate c then unicode_escape c @ quote_chars cs
      else c # quote_chars cs)"

definition quote_json_string :: "jsstring \<Rightarrow> jsstring" where
  "quote_json_string s = 34 # quote_chars s @ [34]"

definition json_stringify_description :: "session_description \<Rightarrow> jsstring" where
  "json_stringify_description d =
     js ''{\"type\":'' @ quote_json_string (sdp_type_string (sd_type d)) @
     js '',\"sdp\":'' @ quote_json_string (sd_sdp d) @ js ''}''"

text \<open>
  \<open>JSON.parse\<close> on the texts that denote an object whose members are all strings (any
  member names, any order, white space allowed between the tokens); \<open>None\<close> stands for a
  SyntaxError, and also for a well-formed text outside this fragment. The string parser
  takes the text after the opening quotation mark and returns the string and the text
  after the closing one.
\<close>

definition simple_escape :: "nat \<Rightarrow> nat option" where
  "simple_escape e =
     (if e = 34 then Some 34
      else if e = 92 then Some 92
      else if e = 47 then Some 47
      else if e = 98 then Some 8
      else if e = 102 then Some 12
      else if e = 110 then Some 10
      else if e = 114 then Some 13
      else if e = 116 then Some 9
      else None)"

definition hex4 :: "nat \<Rightarrow> nat \<Rightarrow> nat \<Rightarrow> nat \<Rightarrow> nat option" where
  "hex4 a b c d =
     (case (hex_value a, hex_value b, hex_value c, hex_value d) of
        (Some w, Some x, Some y, Some z) \<Rightarrow> Some (w * 4096 + x * 256 + y * 16 + z)
      | _ \<Rightarrow> None)"

definition cons_result :: "nat \<Rightarrow> (jsstring \<times> jsstring) option \<Rightarrow> (jsstring \<times> jsstring) option" where
  "cons_result v r = (case r of None \<Rightarrow> None | Some (s, rest) \<Rightarrow> Some (v # s, rest))"

fun parse_string_body :: "jsstring \<Rightarrow> (jsstring \<times> jsstring) option" where
  "parse_string_body [] = None"
| "parse_string_body (c # cs) =
     (if c = 34 then Some ([], cs)
      else if c = 92 then
        (case cs of
           [] \<Rightarrow> None
         | e # es \<Rightarrow>
             if e = 117 then
               (case es of
                  h1 # h2 # h3 # h4 # r \<Rightarrow>
                    (case hex4 h1 h2 h3 h4 of
                       None \<Rightarrow> None
                     | Some v \<Rightarrow> cons_result v (parse_string_body r))
                | _ \<Rightarrow> None)
             else (case simple_escape e of
                     None \<Rightarrow> None
                   | Some v \<Rightarrow> cons_result v (parse_string_body es)))
      else if c < 32 then None
      else cons_result c (parse_string_body cs))"

definition is_json_whitespace :: "nat \<Rightarrow> bool" where
  "is_json_whitespace c \<longleftrightarrow> c = 9 \<or> c = 10 \<or> c = 13 \<or> c = 32"

definition skip_ws :: "jsstring \<Rightarrow> jsstring" where
  "skip_ws s = dropWhile is_json_whitespace s"

text \<open>One member \<open>"name" : "value"\<close>, with the text that follows it.\<close>

definition parse_member :: "jsstring \<Rightarrow> ((jsstring \<times> jsstring) \<times> jsstring) option" where
  "parse_member s =
     (case s of
        [] \<Rightarrow> None
      | q # s1 \<Rightarrow>
          if q \<noteq> 34 then None
          else (case parse_string_body s1 of
                  None \<Rightarrow> None
                | Some (name, s2) \<Rightarrow>
                    (case skip_ws s2 of
                       [] \<Rightarrow> None
                     | colon # s3 \<Rightarrow>
                         if colon \<noteq> 58 then None
                         else (case skip_ws s3 of
                                 [] \<Rightarrow> None
                               | q2 # s4 \<Rightarrow>
                                   if q2 \<noteq> 34 then None
                                   else (case parse_string_body s4 of
                                           None \<Rightarrow> None
                                         | Some (v, s5) \<Rightarrow> Some ((name, v), s5))))))"

text \<open>
  The members after the opening brace, up to the closing brace; the fuel bounds the
  number of members and is supplied as the length of the text, which is always enough
  because every member consumes at least one character.
\<close>

fun parse_members :: "nat \<Rightarrow> jsstring \<Rightarrow> ((jsstring \<times> jsstring) list \<times> jsstring) option" where
  "parse_members 0 s = None"
| "parse_members (Suc fuel) s =
     (case parse_member (skip_ws s) of
        None \<Rightarrow> None
      | Some (m, s1) \<Rightarrow>
          (case skip_ws s1 of
             [] \<Rightarrow> None
           | sep # s2 \<Rightarrow>
               if sep = 125 then Some ([m], s2)
               else if sep = 44 then
                 (case parse_members fuel s2 of
                    None \<Rightarrow> None
                  | Some (ms, s3) \<Rightarrow> Some (m # ms, s3))
               else None))"

definition json_parse_string_object :: "jsstring \<Rightarrow> (jsstring \<times> jsstring) list option" where
  "json_parse_string_object text =
     (case skip_ws text of
        [] \<Rightarrow> None
      | brace # s1 \<Rightarrow>
          if brace \<noteq> 123 then None
          else (case skip_ws s1 of
                  [] \<Rightarrow> None
                | c # s2 \<Rightarrow>
                    if c = 125 then (if skip_ws s2 = [] then Some [] else None)
                    else (case parse_members (length s1) s1 of
                            None \<Rightarrow> None
                          | Some (ms, s3) \<Rightarrow> if skip_ws s3 = [] then Some ms else None)))"

text \<open>Property lookup on the parsed object: the last member of a name wins.\<close>

definition get_member :: "jsstring \<Rightarrow> (jsstring \<times> jsstring) list \<Rightarrow> jsstring option" where
  "get_member name ms = map_of (rev ms) name"

text \<open>
  The two directions of the exchange. \<open>encode_description\<close> is
  \<open>btoa(JSON.stringify(peerConnection.localDescription))\<close> of \<open>setupWebRTC\<close>;
  \<open>decode_description\<close> is \<open>new RTCSessionDescription(JSON.parse(atob(serverSdpBase64)))\<close> of
  \<open>handleAvatarSdpAnswer\<close>, whose constructor requires a \<open>type\<close> among the four names and
  takes the empty string for a missing \<open>sdp\<close>. \<open>None\<close> is a thrown exception.
\<close>

definition encode_description :: "session_description \<Rightarrow> jsstring option" where
  "encode_description d = btoa (json_stringify_description d)"

definition decode_description :: "jsstring \<Rightarrow> session_description option" where
  "decode_description serverSdpBase64 =
     (case atob serverSdpBase64 of
        None \<Rightarrow> None
      | Some serverSdpJson \<Rightarrow>
          (case json_parse_string_object serverSdpJson of
             None \<Rightarrow> None
           | Some serverSdpObj \<Rightarrow>
               (case get_member (js ''type'') serverSdpObj of
                  None \<Rightarrow> None
                | Some t \<Rightarrow>
                    (case sdp_type_of_string t of
                       None \<Rightarrow> None
                     | Some ty \<Rightarrow>
                         Some \<lparr>sd_type = ty,
                               sd_sdp = (case get_member (js ''sdp'') serverSdpObj of
                                           None \<Rightarrow> [] | Some s \<Rightarrow> s)\<rparr>))))"

text \<open>Decoding the encoding of a description; \<open>None\<close> when either step throws.\<close>

definition sdp_roundtrip :: "session_description \<Rightarrow> session_description option" where
  "sdp_roundtrip d =
     (case encode_description d of None \<Rightarrow> None | Some e \<Rightarrow> decode_description e)"

section \<open>Voice Live Avatar client (app.js): connection, microphone and outgoing messages\<close>

text \<open>
  The page is read through \<open>document.getElementById\<close>: which elements exist, the \<open>value\<close> of
  an input and the \<open>checked\<close> flag of a checkbox. The page itself (index.html) is not among
  the sources, so it is a parameter; elements that the code reads without optional
  chaining are taken to exist.
\<close>

record dom =
  has_element :: "string \<Rightarrow> bool"
  el_value :: "string \<Rightarrow> jsstring"
  el_checked :: "string \<Rightarrow> bool"

definition is_js_whitespace :: "nat \<Rightarrow> bool" where
  "is_js_whitespace c \<longleftrightarrow>
     c \<in> set [9, 10, 11, 12, 13, 32, 160, 5760, 8232, 8233, 8239, 8287, 12288, 65279] \<or>
     (8192 \<le> c \<and> c \<le> 8202)"

definition trim :: "jsstring \<Rightarrow> jsstring" where
  "trim s = rev (dropWhile is_js_whitespace (rev (dropWhile is_js_whitespace s)))"

text \<open>
  A configuration value. A number is kept as the expression that produces it from the
  text of its input: \<open>parseFloat(v)\<close>, \<open>parseFloat(v) / 100\<close> or \<open>parseInt(v)\<close>.
\<close>

datatype cfg_value =
    CString jsstring
  | CBool bool
  | CParseFloat jsstring
  | CParseFloatPercent jsstring
  | CParseInt jsstring
  | CObject "(string \<times> cfg_value) list"

type_synonym config = "(string \<times> cfg_value) list"

definition gatherConfig :: "dom \<Rightarrow> config" where
  "gatherConfig d =
     (let isPhotoAvatar = el_checked d ''isPhotoAvatar'';
          isCustomAvatar = el_checked d ''isCustomAvatar''
      in [(''mode'', CString (el_value d ''mode'')),
          (''model'', CString (el_value d ''model'')),
          (''voiceType'', CString (el_value d ''voiceType'')),
          (''voiceName'', CString (el_value d ''voiceName'')),
          (''voiceSpeed'', CParseFloatPercent (el_value d ''voiceSpeed'')),
          (''voiceTemperature'', CParseFloat (el_value d ''voiceTemperature'')),
          (''voiceDeploymentId'', CString (el_value d ''voiceDeploymentId'')),
          (''customVoiceName'', CString (el_value d ''customVoiceName'')),
          (''personalVoiceName'', CString (el_value d ''personalVoiceName'')),
          (''personalVoiceModel'', CString (el_value d ''personalVoiceModel'')),
          (''avatarEnabled'', CBool (el_checked d ''avatarEnabled'')),
          (''isPhotoAvatar'', CBool isPhotoAvatar),
          (''isCustomAvatar'', CBool isCustomAvatar),
          (''avatarName'',
             CString (if isCustomAvatar then el_value d ''customAvatarName''
                      else if isPhotoAvatar then el_value d ''photoAvatarName''
                      else el_value d ''avatarName'')),
          (''avatarOutputMode'', CString (el_value d ''avatarOutputMode'')),
          (''avatarBackgroundImageUrl'', CString (el_value d ''avatarBackgroundImageUrl'')),
          (''useNS'', CBool (el_checked d ''useNS'')),
          (''useEC'', CBool (el_checked d ''useEC'')),
          (''turnDetectionType'', CString (el_value d ''turnDetectionType'')),
          (''removeFillerWords'', CBool (el_checked d ''removeFillerWords'')),
          (''srModel'', CString (el_value d ''srModel'')),
          (''recognitionLanguage'', CString (el_value d ''recognitionLanguage'')),
          (''eouDetectionType'', CString (el_value d ''eouDetectionType'')),
          (''instructions'', CString (el_value d ''instructions'')),
          (''temperature'', CParseFloat (el_value d ''temperature'')),
          (''enableProactive'', CBool (el_checked d ''enableProactive'')),
          (''agentId'', CString (el_value d ''agentId'')),
          (''agentName'', CString (el_value d ''agentName'')),
          (''agentProjectName'', CString (el_value d ''agentProjectName''))] @
         (if isPhotoAvatar
          then [(''photoScene'',
                 CObject [(''zoom'', CParseInt (el_value d ''sceneZoom'')),
                          (''positionX'', CParseInt (el_value d ''scenePositionX'')),
                          (''positionY'', CParseInt (el_value d ''scenePositionY'')),
                          (''rotationX'', CParseInt (el_value d ''sceneRotationX'')),
                          (''rotationY'', CParseInt (el_value d ''sceneRotationY'')),
                          (''rotationZ'', CParseInt (el_value d ''sceneRotationZ'')),
                          (''amplitude'', CParseInt (el_value d ''sceneAmplitude''))])]
          else []))"

text \<open>Assignment to a property of an object: overwrite in place, or add at the end.\<close>

fun set_property :: "string \<Rightarrow> 'v \<Rightarrow> (string \<times> 'v) list \<Rightarrow> (string \<times> 'v) list" where
  "set_property k v [] = [(k, v)]"
| "set_property k v (p # ps) = (if fst p = k then (k, v) # ps else p # set_property k v ps)"

text \<open>
  The messages the frontend sends to the backend. The payload of \<open>update_scene\<close> (the
  avatar object computed from the scene sliders) is left out.
\<close>

datatype out_msg =
    StartSession config
  | StopSession
  | AudioChunk jsstring
  | SendText jsstring
  | UpdateScene
  | AvatarSdpOffer jsstring

text \<open>
  A WebSocket object: its \<open>readyState\<close>, the messages it has transmitted, whether its
  \<open>close\<close> event has been delivered, and the constants of the call of \<open>connectSession\<close>
  that created it, which its \<open>onopen\<close> handler captures. The handlers read the global
  \<open>ws\<close>, not the socket they are attached to, so the sockets live in a store and \<open>ws\<close> is a
  reference into it.
\<close>

datatype ws_ready_state = CONNECTING | OPEN | CLOSING | CLOSED

record socket =
  readyState :: ws_ready_state
  sent :: "out_msg list"
  close_fired :: bool
  cs_endpoint :: jsstring
  cs_isAgent :: bool
  cs_apiKey :: "jsstring option"
  cs_entraToken :: "jsstring option"

datatype role = User | Assistant | System

record chat_message =
  msg_role :: role
  msg_text :: jsstring
  msg_item_id :: "jsstring option"

record app_state =
  ws :: "nat option"
  sockets :: "socket list"
  isConnected :: bool
  isConnecting :: bool
  isRecording :: bool
  audioChunksSent :: nat
  avatarEnabled :: bool
  avatarOutputMode :: jsstring
  isSpeaking :: bool
  peerConnection :: bool
  lastSceneUpdate :: int
  pendingAssistantText :: jsstring
  messages :: "chat_message list"
  page :: dom

definition initial_app :: "dom \<Rightarrow> app_state" where
  "initial_app d =
     \<lparr>ws = None, sockets = [], isConnected = False, isConnecting = False,
      isRecording = False, audioChunksSent = 0, avatarEnabled = False,
      avatarOutputMode = js ''webrtc'', isSpeaking = False, peerConnection = False,
      lastSceneUpdate = 0, pendingAssistantText = [], messages = [], page = d\<rparr>"

text \<open>
  \<open>addMessage(role, text)\<close>; every call in the file leaves the third parameter \<open>isDev\<close> at
  its default, so the message is always appended.
\<close>

definition addMessage :: "role \<Rightarrow> jsstring \<Rightarrow> app_state \<Rightarrow> app_state" where
  "addMessage r t st =
     st\<lparr>messages := messages st @ [\<lparr>msg_role = r, msg_text = t, msg_item_id = None\<rparr>]\<rparr>"

definition setConnecting :: "bool \<Rightarrow> app_state \<Rightarrow> app_state" where
  "setConnecting connecting st = st\<lparr>isConnecting := connecting\<rparr>"

text \<open>
  \<open>ws.send(m)\<close> on the global \<open>ws\<close>: a TypeError when \<open>ws\<close> is \<open>null\<close> and an
  InvalidStateError while the socket is connecting (both \<open>None\<close>); the message is
  transmitted when the socket is open and silently discarded when it is closing or closed.
\<close>

definition ws_send :: "out_msg \<Rightarrow> app_state \<Rightarrow> app_state option" where
  "ws_send m st =
     (case ws st of
        None \<Rightarrow> None
      | Some j \<Rightarrow>
          if j < length (sockets st) then
            (case readyState (sockets st ! j) of
               CONNECTING \<Rightarrow> None
             | OPEN \<Rightarrow>
                 Some (st\<lparr>sockets := (sockets st)
                         [j := (sockets st ! j)\<lparr>sent := sent (sockets st ! j) @ [m]\<rparr>]\<rparr>)
             | _ \<Rightarrow> Some st)
          else None)"

definition ws_is_open :: "app_state \<Rightarrow> bool" where
  "ws_is_open st \<longleftrightarrow>
     (case ws st of
        None \<Rightarrow> False
      | Some j \<Rightarrow> j < length (sockets st) \<and> readyState (sockets st ! j) = OPEN)"

text \<open>\<open>socket.close()\<close>: a connecting or open socket starts closing; otherwise nothing.\<close>

definition socket_close :: "socket \<Rightarrow> socket" where
  "socket_close s =
     (case readyState s of
        CONNECTING \<Rightarrow> s\<lparr>readyState := CLOSING\<rparr>
      | OPEN \<Rightarrow> s\<lparr>readyState := CLOSING\<rparr>
      | _ \<Rightarrow> s)"

text \<open>
  \<open>handleDisconnect\<close>. Its calls into the audio graph, the playback state and the video
  relay act on objects modelled in their own sections; of \<open>cleanupWebRTC\<close> the state keeps
  that \<open>peerConnection\<close> becomes \<open>null\<close>.
\<close>

definition handleDisconnect :: "app_state \<Rightarrow> app_state" where
  "handleDisconnect st =
     (let st1 = st\<lparr>isConnected := False, isConnecting := False, isRecording := False,
                   audioChunksSent := 0, avatarEnabled := False, peerConnection := False\<rparr>
      in case ws st1 of
           None \<Rightarrow> st1
         | Some j \<Rightarrow>
             st1\<lparr>sockets := (sockets st1)[j := socket_close (sockets st1 ! j)], ws := None\<rparr>)"

text \<open>
  \<open>connectSession\<close>; \<open>failure\<close> is \<open>None\<close> when \<open>new WebSocket(url)\<close> returns and the message
  of the error when it throws into the \<open>catch\<close> block. An absent credential input gives
  \<open>undefined\<close> (\<open>None\<close>).
\<close>

definition connectSession :: "jsstring option \<Rightarrow> app_state \<Rightarrow> app_state" where
  "connectSession failure st =
     (let endpoint = trim (el_value (page st) ''endpoint'');
          mode = el_value (page st) ''mode'';
          isAgent = (mode = js ''agent'' \<or> mode = js ''agent-v2'')
      in if endpoint = []
         then addMessage System (js ''Please enter Azure AI Services Endpoint'') st
         else
           let apiKey = (if has_element (page st) ''apiKey''
                         then Some (trim (el_value (page st) ''apiKey'')) else None);
               entraToken = (if has_element (page st) ''entraToken''
                             then Some (trim (el_value (page st) ''entraToken'')) else None)
           in if \<not> isAgent \<and> (apiKey = None \<or> apiKey = Some [])
              then addMessage System (js ''Please enter Subscription Key'') st
              else if isAgent \<and> (entraToken = None \<or> entraToken = Some [])
              then addMessage System (js ''Please enter Entra ID Token'') st
              else
                let st1 = addMessage System
                      (js ''Session started, click on the mic button to start conversation! debug id: connecting...'')
                      (setConnecting True st)
                in case failure of
                     None \<Rightarrow>
                       st1\<lparr>ws := Some (length (sockets st1)),
                           sockets := sockets st1 @
                             [\<lparr>readyState = CONNECTING, sent = [], close_fired = False,
                               cs_endpoint = endpoint, cs_isAgent = isAgent,
                               cs_apiKey = apiKey, cs_entraToken = entraToken\<rparr>]\<rparr>
                   | Some err_message \<Rightarrow>
                       setConnecting False
                         (addMessage System (js ''Failed to connect: '' @ err_message) st1))"

definition disconnect :: "app_state \<Rightarrow> app_state" where
  "disconnect st =
     handleDisconnect
       (if ws_is_open st
        then (case ws_send StopSession st of None \<Rightarrow> st | Some st1 \<Rightarrow> st1)
        else st)"

definition toggleConnection :: "jsstring option \<Rightarrow> app_state \<Rightarrow> app_state" where
  "toggleConnection failure st =
     (if isConnecting st then st
      else if isConnected st then disconnect st
      else connectSession failure st)"

text \<open>The \<open>onopen\<close> handler of the socket \<open>i\<close>, with the constants its closure captured.\<close>

definition ws_onopen :: "nat \<Rightarrow> app_state \<Rightarrow> app_state" where
  "ws_onopen i st =
     (let c = sockets st ! i;
          config = set_property ''endpoint'' (CString (cs_endpoint c)) (gatherConfig (page st));
          config1 =
            (if cs_isAgent c
             then (case cs_entraToken c of
                     None \<Rightarrow> config
                   | Some t \<Rightarrow> set_property ''entraToken'' (CString t) config)
             else (case cs_apiKey c of
                     None \<Rightarrow> config
                   | Some k \<Rightarrow> set_property ''apiKey'' (CString k) config))
      in case ws_send (StartSession config1) st of None \<Rightarrow> st | Some st1 \<Rightarrow> st1)"

text \<open>
  The messages of the backend, as \<open>handleServerMessage\<close> reads them. A falsy or absent
  string field is the empty string, except the \<open>delta\<close> of a text or transcript delta, which
  is \<open>None\<close> when absent (string concatenation then appends the text \<open>undefined\<close>);
  \<open>SessionStarted\<close> carries the session id and the
  truthiness of \<open>config.avatarEnabled\<close> and the string \<open>config.avatarOutputMode\<close>;
  \<open>IceServers\<close> tells whether \<open>setupWebRTC\<close> gets as far as creating the peer connection.
\<close>

datatype server_msg =
    SessionStarted jsstring bool jsstring
  | SessionError jsstring
  | IceServers bool
  | AvatarSdpAnswer jsstring
  | AudioData jsstring
  | TranscriptDone jsstring jsstring jsstring
  | TranscriptDelta jsstring "jsstring option"
  | TextDelta "jsstring option"
  | TextDone
  | SpeechStarted jsstring
  | SpeechStopped
  | ResponseCreated
  | ResponseDone
  | SessionClosed
  | AvatarConnecting
  | VideoDataMsg jsstring
  | UnknownMsg

text \<open>Edits of the chat: the first, or the last, message that satisfies a test.\<close>

fun update_first :: "('a \<Rightarrow> bool) \<Rightarrow> ('a \<Rightarrow> 'a) \<Rightarrow> 'a list \<Rightarrow> 'a list" where
  "update_first P f [] = []"
| "update_first P f (x # xs) = (if P x then f x # xs else x # update_first P f xs)"

definition update_last :: "('a \<Rightarrow> bool) \<Rightarrow> ('a \<Rightarrow> 'a) \<Rightarrow> 'a list \<Rightarrow> 'a list" where
  "update_last P f xs = rev (update_first P f (rev xs))"

fun includes_str :: "jsstring \<Rightarrow> jsstring \<Rightarrow> bool" where
  "includes_str [] sub = (sub = [])"
| "includes_str (c # cs) sub = (prefix sub (c # cs) \<or> includes_str cs sub)"

definition onAssistantDelta :: "jsstring option \<Rightarrow> app_state \<Rightarrow> app_state" where
  "onAssistantDelta t st =
     (let st1 = st\<lparr>pendingAssistantText := pendingAssistantText st @
                   (case t of None \<Rightarrow> js ''undefined'' | Some s \<Rightarrow> s)\<rparr>
      in if list_ex (\<lambda>m. msg_role m = Assistant) (messages st1)
         then st1\<lparr>messages := update_last (\<lambda>m. msg_role m = Assistant)
                     (\<lambda>m. m\<lparr>msg_text := pendingAssistantText st1\<rparr>) (messages st1)\<rparr>
         else addMessage Assistant (pendingAssistantText st1) st1)"

text \<open>
  \<open>onSessionStarted\<close>. \<open>startAudioCapture\<close> builds the audio graph whose worklet posts the
  PCM16 buffers; its \<open>onmessage\<close> handler is \<open>worklet_onmessage\<close> below.
\<close>

definition onSessionStarted :: "jsstring \<Rightarrow> bool \<Rightarrow> jsstring \<Rightarrow> app_state \<Rightarrow> app_state" where
  "onSessionStarted sessionId cfgAvatarEnabled cfgAvatarOutputMode st =
     (let st1 = st\<lparr>isConnected := True, isConnecting := False\<rparr>;
          st2 = st1\<lparr>messages :=
                  update_first
                    (\<lambda>m. msg_role m = System \<and> includes_str (msg_text m) (js ''debug id: connecting...''))
                    (\<lambda>m. m\<lparr>msg_text :=
                       js ''Session started, click on the mic button to start conversation! debug id: '' @
                       (if sessionId = [] then js ''unknown'' else sessionId)\<rparr>)
                    (messages st1)\<rparr>
      in st2\<lparr>avatarEnabled := cfgAvatarEnabled,
             avatarOutputMode :=
               (if cfgAvatarOutputMode = [] then js ''webrtc'' else cfgAvatarOutputMode),
             isRecording := False\<rparr>)"

definition onSpeechStarted :: "jsstring \<Rightarrow> app_state \<Rightarrow> app_state" where
  "onSpeechStarted itemId st =
     (let st1 = st\<lparr>isSpeaking := True\<rparr>
      in if itemId = [] then st1
         else st1\<lparr>messages := messages st1 @
                [\<lparr>msg_role = User, msg_text = js ''...'', msg_item_id = Some itemId\<rparr>]\<rparr>)"

fun handleServerMessage :: "server_msg \<Rightarrow> app_state \<Rightarrow> app_state" where
  "handleServerMessage (SessionStarted sessionId ae mode) st = onSessionStarted sessionId ae mode st"
| "handleServerMessage (SessionError err) st =
     setConnecting False
       (addMessage System (js ''Error: '' @ (if err = [] then js ''Unknown error'' else err)) st)"
| "handleServerMessage (IceServers created) st =
     (if avatarOutputMode st = js ''webrtc'' then st\<lparr>peerConnection := created\<rparr> else st)"
| "handleServerMessage (AvatarSdpAnswer serverSdp) st = st"
| "handleServerMessage (AudioData d) st = st"
| "handleServerMessage (TranscriptDone r itemId transcript) st =
     (if r = js ''user'' then
        (if itemId \<noteq> [] \<and>
            list_ex (\<lambda>m. msg_role m = User \<and> msg_item_id m = Some itemId) (messages st)
         then st\<lparr>messages := update_first
                    (\<lambda>m. msg_role m = User \<and> msg_item_id m = Some itemId)
                    (\<lambda>m. m\<lparr>msg_text := transcript\<rparr>) (messages st)\<rparr>
         else addMessage User transcript st)
      else if r = js ''assistant'' then
        (if transcript \<noteq> []
         then st\<lparr>messages := update_last (\<lambda>m. msg_role m = Assistant)
                    (\<lambda>m. m\<lparr>msg_text := transcript\<rparr>) (messages st),
                 pendingAssistantText := []\<rparr>
         else st)
      else st)"
| "handleServerMessage (TranscriptDelta r delta) st =
     (if r = js ''assistant'' then onAssistantDelta delta st else st)"
| "handleServerMessage (TextDelta delta) st = onAssistantDelta delta st"
| "handleServerMessage TextDone st = st"
| "handleServerMessage (SpeechStarted itemId) st = onSpeechStarted itemId st"
| "handleServerMessage SpeechStopped st = st\<lparr>pendingAssistantText := [], isSpeaking := False\<rparr>"
| "handleServerMessage ResponseCreated st =
     (addMessage Assistant [] (st\<lparr>pendingAssistantText := []\<rparr>))\<lparr>isSpeaking := True\<rparr>"
| "handleServerMessage ResponseDone st = st\<lparr>isSpeaking := False\<rparr>"
| "handleServerMessage SessionClosed st =
     handleDisconnect (addMessage System (js ''Session closed'') st)"
| "handleServerMessage AvatarConnecting st = addMessage System (js ''Avatar connecting...'') st"
| "handleServerMessage (VideoDataMsg d) st = st"
| "handleServerMessage UnknownMsg st = st"

definition ws_onerror :: "app_state \<Rightarrow> app_state" where
  "ws_onerror st = setConnecting False (addMessage System (js ''WebSocket error'') st)"

definition ws_onclose :: "app_state \<Rightarrow> app_state" where
  "ws_onclose st =
     handleDisconnect (if isConnected st then addMessage System (js ''Disconnected'') st else st)"

text \<open>The \<open>onmessage\<close> handler of the worklet port, installed by \<open>startAudioCapture\<close>.\<close>

definition worklet_onmessage :: "array_buffer \<Rightarrow> app_state \<Rightarrow> app_state" where
  "worklet_onmessage data st =
     (if \<not> isConnected st \<or> \<not> isRecording st \<or> \<not> ws_is_open st then st
      else case arrayBufferToBase64 data of
             None \<Rightarrow> st
           | Some base64 \<Rightarrow>
               let st1 = st\<lparr>audioChunksSent := audioChunksSent st + 1\<rparr>
               in (case ws_send (AudioChunk base64) st1 of None \<Rightarrow> st1 | Some st2 \<Rightarrow> st2))"

definition toggleMicrophone :: "app_state \<Rightarrow> app_state" where
  "toggleMicrophone st = (if \<not> isConnected st then st else st\<lparr>isRecording := \<not> isRecording st\<rparr>)"

definition sendTextMessage :: "app_state \<Rightarrow> app_state" where
  "sendTextMessage st =
     (let t = trim (el_value (page st) ''textInput'')
      in if t = [] \<or> \<not> isConnected st \<or> ws st = None then st
         else
           let st1 = addMessage User t st
           in case ws_send (SendText t) st1 of
                None \<Rightarrow> st1
              | Some st2 \<Rightarrow>
                  st2\<lparr>page := (page st2)\<lparr>el_value := (el_value (page st2))(''textInput'' := [])\<rparr>\<rparr>)"

definition updateAvatarScene :: "app_state \<Rightarrow> app_state" where
  "updateAvatarScene st =
     (if \<not> isConnected st \<or> \<not> ws_is_open st then st
      else if \<not> (has_element (page st) ''isPhotoAvatar'' \<and> el_checked (page st) ''isPhotoAvatar'')
      then st
      else if \<not> (has_element (page st) ''avatarEnabled'' \<and> el_checked (page st) ''avatarEnabled'')
      then st
      else case ws_send UpdateScene st of None \<Rightarrow> st | Some st1 \<Rightarrow> st1)"

definition SCENE_THROTTLE_MS :: int where
  "SCENE_THROTTLE_MS = 50"

definition throttledUpdateAvatarScene :: "int \<Rightarrow> app_state \<Rightarrow> app_state" where
  "throttledUpdateAvatarScene now st =
     (if now - lastSceneUpdate st < SCENE_THROTTLE_MS then st
      else updateAvatarScene (st\<lparr>lastSceneUpdate := now\<rparr>))"

text \<open>
  The last step of the promise chain of \<open>setupWebRTC\<close>, two seconds after the offer was
  set: it reads \<open>peerConnection.localDescription\<close> (a TypeError when \<open>peerConnection\<close> is
  \<open>null\<close>), encodes it and sends it on the global \<open>ws\<close>; every exception ends in the
  \<open>catch\<close> that reports the failure.
\<close>

definition send_sdp_offer :: "session_description \<Rightarrow> app_state \<Rightarrow> app_state" where
  "send_sdp_offer localDescription st =
     (if \<not> peerConnection st then addMessage System (js ''WebRTC setup failed'') st
      else case encode_description localDescription of
             None \<Rightarrow> addMessage System (js ''WebRTC setup failed'') st
           | Some sdpBase64 \<Rightarrow>
               (case ws_send (AvatarSdpOffer sdpBase64) st of
                  None \<Rightarrow> addMessage System (js ''WebRTC setup failed'') st
                | Some st1 \<Rightarrow> st1))"

text \<open>
  What can happen to the client. The browser delivers \<open>open\<close> only to a connecting socket,
  messages only to an open one, and \<open>error\<close> and \<open>close\<close> only until \<open>close\<close> has been
  delivered; a failed or closed connection has \<open>readyState\<close> closed when its events fire.
  The user may click Connect/Disconnect, toggle the microphone, send the text, move a
  scene slider (at a clock time), clear the chat, or edit the page.
\<close>

datatype app_event =
    ClickConnect "jsstring option"
  | WsOpen nat
  | WsMessage nat server_msg
  | WsError nat
  | WsClose nat
  | WorkletMessage array_buffer
  | ToggleMicrophone
  | SendTextMessage
  | SceneSliderInput int
  | SdpTimer session_description
  | ClearChat
  | EditPage dom

definition set_socket :: "nat \<Rightarrow> (socket \<Rightarrow> socket) \<Rightarrow> app_state \<Rightarrow> app_state" where
  "set_socket i f st = st\<lparr>sockets := (sockets st)[i := f (sockets st ! i)]\<rparr>"

fun app_step :: "app_event \<Rightarrow> app_state \<Rightarrow> app_state" where
  "app_step (ClickConnect failure) st = toggleConnection failure st"
| "app_step (WsOpen i) st =
     (if i < length (sockets st) \<and> readyState (sockets st ! i) = CONNECTING
      then ws_onopen i (set_socket i (\<lambda>s. s\<lparr>readyState := OPEN\<rparr>) st)
      else st)"
| "app_step (WsMessage i m) st =
     (if i < length (sockets st) \<and> readyState (sockets st ! i) = OPEN
      then handleServerMessage m st else st)"
| "app_step (WsError i) st =
     (if i < length (sockets st) \<and> \<not> close_fired (sockets st ! i)
      then ws_onerror (set_socket i (\<lambda>s. s\<lparr>readyState := CLOSED\<rparr>) st)
      else st)"
| "app_step (WsClose i) st =
     (if i < length (sockets st) \<and> \<not> close_fired (sockets st ! i)
      then ws_onclose (set_socket i (\<lambda>s. s\<lparr>readyState := CLOSED, close_fired := True\<rparr>) st)
      else st)"
| "app_step (WorkletMessage data) st = worklet_onmessage data st"
| "app_step ToggleMicrophone st = toggleMicrophone st"
| "app_step SendTextMessage st = sendTextMessage st"
| "app_step (SceneSliderInput now) st = throttledUpdateAvatarScene now st"
| "app_step (SdpTimer d) st = send_sdp_offer d st"
| "app_step ClearChat st = st\<lparr>messages := []\<rparr>"
| "app_step (EditPage d) st = st\<lparr>page := d\<rparr>"

fun app_run :: "app_event list \<Rightarrow> app_state \<Rightarrow> app_state" where
  "app_run [] st = st"
| "app_run (e # es) st = app_run es (app_step e st)"

text \<open>
  The messages of one kind transmitted so far, socket by socket, and the kinds the claims
  speak about.
\<close>

definition sent_of :: "(out_msg \<Rightarrow> bool) \<Rightarrow> app_state \<Rightarrow> out_msg list" where
  "sent_of P st = concat (map (\<lambda>s. filter P (sent s)) (sockets st))"

fun is_audio_chunk :: "out_msg \<Rightarrow> bool" where
  "is_audio_chunk (AudioChunk d) = True"
| "is_audio_chunk m = False"

fun is_start_session :: "out_msg \<Rightarrow> bool" where
  "is_start_session (StartSession c) = True"
| "is_start_session m = False"

fun is_toggle :: "app_event \<Rightarrow> bool" where
  "is_toggle ToggleMicrophone = True"
| "is_toggle e = False"

fun is_click_connect :: "app_event \<Rightarrow> bool" where
  "is_click_connect (ClickConnect f) = True"
| "is_click_connect e = False"

text \<open>
  The validation of \<open>connectSession\<close> in the words of the specification: the endpoint is
  not empty, and neither is the credential of the selected mode (the Entra ID token for
  the agent modes, the subscription key otherwise).
\<close>

definition is_agent_mode :: "dom \<Rightarrow> bool" where
  "is_agent_mode d \<longleftrightarrow> el_value d ''mode'' = js ''agent'' \<or> el_value d ''mode'' = js ''agent-v2''"

definition credentials_entered :: "dom \<Rightarrow> bool" where
  "credentials_entered d \<longleftrightarrow>
     trim (el_value d ''endpoint'') \<noteq> [] \<and>
     (if is_agent_mode d
      then has_element d ''entraToken'' \<and> trim (el_value d ''entraToken'') \<noteq> []
      else has_element d ''apiKey'' \<and> trim (el_value d ''apiKey'') \<noteq> [])"

text \<open>
  A socket was created by a call that passed validation; a message is the
  \<open>start_session\<close> of a socket when its configuration holds the endpoint of that call and
  exactly the credential of its mode; the log of a socket is empty or starts with that
  message.
\<close>

definition closure_valid :: "socket \<Rightarrow> bool" where
  "closure_valid s \<longleftrightarrow>
     cs_endpoint s \<noteq> [] \<and>
     (if cs_isAgent s
      then (case cs_entraToken s of None \<Rightarrow> False | Some t \<Rightarrow> t \<noteq> [])
      else (case cs_apiKey s of None \<Rightarrow> False | Some k \<Rightarrow> k \<noteq> []))"

fun start_session_for :: "socket \<Rightarrow> out_msg \<Rightarrow> bool" where
  "start_session_for s (StartSession cfg) \<longleftrightarrow>
     map_of cfg ''endpoint'' = Some (CString (cs_endpoint s)) \<and>
     (if cs_isAgent s
      then map_of cfg ''entraToken'' = map_option CString (cs_entraToken s) \<and>
           map_of cfg ''apiKey'' = None
      else map_of cfg ''apiKey'' = map_option CString (cs_apiKey s) \<and>
           map_of cfg ''entraToken'' = None)"
| "start_session_for s m \<longleftrightarrow> False"

definition first_message_ok :: "socket \<Rightarrow> bool" where
  "first_message_ok s \<longleftrightarrow>
     closure_valid s \<and> (case sent s of [] \<Rightarrow> True | m # ms \<Rightarrow> start_session_for s m)"

definition fm_inv :: "nat option \<Rightarrow> socket list \<Rightarrow> bool" where
  "fm_inv w xs \<longleftrightarrow>
     (\<forall>j. w = Some j \<longrightarrow> j < length xs) \<and>
     (\<forall>j < length xs.
        first_message_ok (xs ! j) \<and>
        (sent (xs ! j) = [] \<and> readyState (xs ! j) = OPEN \<longrightarrow> w \<noteq> Some j))"

definition connecting_count :: "socket list \<Rightarrow> nat" where
  "connecting_count xs = length (filter (\<lambda>s. readyState s = CONNECTING) xs)"

text \<open>A page for the examples: model mode, an endpoint and a subscription key entered.\<close>

definition sample_page :: dom where
  "sample_page =
     \<lparr>has_element = (\<lambda>e. True),
      el_value = (\<lambda>e. if e = ''endpoint'' then js '' https://example.test ''
                        else if e = ''apiKey'' then js ''key''
                        else if e = ''mode'' then js ''model''
                        else []),
      el_checked = (\<lambda>e. False)\<rparr>"

text \<open>The invariant of the socket store, and the configuration that \<open>onopen\<close> sends.\<close>

definition app_inv :: "app_state \<Rightarrow> bool" where
  "app_inv st \<longleftrightarrow> fm_inv (ws st) (sockets st)"

definition start_config :: "socket \<Rightarrow> dom \<Rightarrow> config" where
  "start_config c d =
     (let config = set_property ''endpoint'' (CString (cs_endpoint c)) (gatherConfig d)
      in if cs_isAgent c
         then (case cs_entraToken c of
                 None \<Rightarrow> config
               | Some t \<Rightarrow> set_property ''entraToken'' (CString t) config)
         else (case cs_apiKey c of
                 None \<Rightarrow> config
               | Some k \<Rightarrow> set_property ''apiKey'' (CString k) config))"

text \<open>
  Counting: the \<open>start_session\<close> messages transmitted and the sockets still connecting
  together never exceed the sockets created; a step is quiet when it creates no socket
  and lets none start connecting.
\<close>

definition cnt_inv :: "app_state \<Rightarrow> bool" where
  "cnt_inv st \<longleftrightarrow>
     length (sent_of is_start_session st) + connecting_count (sockets st) \<le> length (sockets st)"

definition quiet :: "app_state \<Rightarrow> app_state \<Rightarrow> bool" where
  "quiet st st' \<longleftrightarrow>
     length (sockets st') = length (sockets st) \<and>
     connecting_count (sockets st') \<le> connecting_count (sockets st)"

text \<open>The 6-bit groups of a byte sequence, that is, its base64 encoding before the alphabet and the padding.\<close>

fun b64_sextets :: "nat list \<Rightarrow> nat list" where
  "b64_sextets (a # b # c # rest) =
     (a div 4) # ((a mod 4) * 16 + b div 16) # ((b mod 16) * 4 + c div 64) # (c mod 64) #
     b64_sextets rest"
| "b64_sextets [a, b] = [a div 4, (a mod 4) * 16 + b div 16, (b mod 16) * 4]"
| "b64_sextets [a] = [a div 4, (a mod 4) * 16]"
| "b64_sextets [] = []"

section \<open>Properties\<close>

subsection \<open>Tool-call handlers\<close>

lemma updates_only_map:
  assumes "\<And>c. id_tc (u c) = id_tc c"
  shows "updates_only cid u prev (map (\<lambda>call. if id_tc call = cid then u call else call) prev)"
  unfolding updates_only_def using assms by (simp add: comp_def cong: map_cong)

text \<open>
  Claim C7. Each tool-call handler of App.tsx rewrites only the entries of \<open>toolCalls\<close> whose
  id equals the event's \<open>call_id\<close>: \<open>onToolCallArguments\<close> sets the arguments,
  \<open>onToolCallExecuting\<close> the status \<open>executing\<close>, \<open>onToolCallCompleted\<close> the status
  \<open>completed\<close> with result and execution time, \<open>onToolCallError\<close> the status \<open>error\<close> with
  the error; the other entries, the order and the length of the list stay as they were.
  \<open>onToolCallStarted\<close> appends exactly one entry, with status \<open>started\<close>.
\<close>

theorem tool_call_handlers_frame:
  "updates_only cid (\<lambda>c. c\<lparr>arguments := Some a\<rparr>) prev (onToolCallArguments cid a prev) \<and>
   updates_only cid (\<lambda>c. c\<lparr>status := Executing\<rparr>) prev (onToolCallExecuting cid prev) \<and>
   updates_only cid (\<lambda>c. c\<lparr>status := Completed, result := Some r, execution_time := Some t\<rparr>)
     prev (onToolCallCompleted cid r t prev) \<and>
   updates_only cid (\<lambda>c. c\<lparr>status := Error, error := Some e\<rparr>) prev (onToolCallError cid e prev) \<and>
   (\<exists>entry. onToolCallStarted cid f ts prev = prev @ [entry] \<and>
            id_tc entry = cid \<and> function_name entry = f \<and> status entry = Started \<and>
            timestamp entry = ts)"
proof -
  have 1: "updates_only cid (\<lambda>c. c\<lparr>arguments := Some a\<rparr>) prev (onToolCallArguments cid a prev)"
    unfolding onToolCallArguments_def by (rule updates_only_map) simp
  have 2: "updates_only cid (\<lambda>c. c\<lparr>status := Executing\<rparr>) prev (onToolCallExecuting cid prev)"
    unfolding onToolCallExecuting_def by (rule updates_only_map) simp
  have 3: "updates_only cid
      (\<lambda>c. c\<lparr>status := Completed, result := Some r, execution_time := Some t\<rparr>)
      prev (onToolCallCompleted cid r t prev)"
    unfolding onToolCallCompleted_def by (rule updates_only_map) simp
  have 4: "updates_only cid (\<lambda>c. c\<lparr>status := Error, error := Some e\<rparr>) prev
      (onToolCallError cid e prev)"
    unfolding onToolCallError_def by (rule updates_only_map) simp
  have 5: "\<exists>entry. onToolCallStarted cid f ts prev = prev @ [entry] \<and>
            id_tc entry = cid \<and> function_name entry = f \<and> status entry = Started \<and>
            timestamp entry = ts"
    by (simp add: onToolCallStarted_def)
  from 1 2 3 4 5 show ?thesis by blast
qed

theorem tool_call_handlers_frame_witness:
  "let e1 = \<lparr>id_tc = ''a'', function_name = ''search'', status = Started,
              arguments = (None :: nat option), result = None, error = None,
              execution_time = (None :: nat option), timestamp = (1::nat)\<rparr>;
       e2 = e1\<lparr>id_tc := ''b'', timestamp := 2\<rparr>;
       prev = [e1, e2]
   in updates_only ''a'' (\<lambda>c. c\<lparr>status := Executing\<rparr>) prev (onToolCallExecuting ''a'' prev) \<and>
      (0::nat) < length prev \<and> id_tc (prev ! 0) = ''a'' \<and>
      onToolCallExecuting ''a'' prev ! 0 = e1\<lparr>status := Executing\<rparr> \<and>
      1 < length prev \<and> id_tc (prev ! 1) \<noteq> ''a'' \<and>
      onToolCallExecuting ''a'' prev ! 1 = e2 \<and>
      onToolCallCompleted ''b'' 7 3 prev =
        [e1, e2\<lparr>status := Completed, result := Some 7, execution_time := Some 3\<rparr>] \<and>
      length (onToolCallStarted ''c'' ''lookup'' 5 prev) = 3"
  using tool_call_handlers_frame [of "''a''" 0
      "[\<lparr>id_tc = ''a'', function_name = ''search'', status = Started,
         arguments = (None :: nat option), result = None, error = None,
         execution_time = (None :: nat option), timestamp = (1::nat)\<rparr>,
        \<lparr>id_tc = ''b'', function_name = ''search'', status = Started,
         arguments = (None :: nat option), result = None, error = None,
         execution_time = (None :: nat option), timestamp = (2::nat)\<rparr>]" 0 0 "''x''" "''f''" 0]
  by (simp add: Let_def onToolCallExecuting_def onToolCallCompleted_def onToolCallStarted_def)

subsection \<open>Audio playback\<close>

lemma ordered_schedule_snoc:
  "ordered_schedule add duration (sch @ [x]) \<longleftrightarrow>
     ordered_schedule add duration sch \<and>
     (sch = [] \<or> (fst (last sch) \<le> fst x \<and> add (fst (last sch)) (duration (snd (last sch))) \<le> fst x))"
  by (induction add duration sch rule: ordered_schedule.induct) auto

lemma handleAudioDelta_cases:
  "(scheduled (handleAudioDelta add duration d now st) = scheduled st \<and>
      (playbackContext st \<longrightarrow> handleAudioDelta add duration d now st = st)) \<or>
   (\<exists>frames. 0 < frames \<and> playbackContext (handleAudioDelta add duration d now st) \<and>
      scheduled (handleAudioDelta add duration d now st) =
        scheduled st @ [(max now (if playbackContext st then nextPlaybackTime st else 0), frames)] \<and>
      nextPlaybackTime (handleAudioDelta add duration d now st) =
        add (max now (if playbackContext st then nextPlaybackTime st else 0)) (duration frames))"
  by (auto simp: handleAudioDelta_def Let_def max_def split: option.splits)

lemma playback_inv_step:
  assumes infl: "\<forall>t n. t \<le> add t (duration n)"
    and inv: "playback_inv add duration st"
  shows "playback_inv add duration (handleAudioDelta add duration d now st)"
proof -
  let ?st' = "handleAudioDelta add duration d now st"
  let ?next = "if playbackContext st then nextPlaybackTime st else 0"
  from handleAudioDelta_cases [of add duration d now st]
  consider (same) "scheduled ?st' = scheduled st" "playbackContext st \<longrightarrow> ?st' = st"
    | (more) frames where "playbackContext ?st'"
        "scheduled ?st' = scheduled st @ [(max now ?next, frames)]"
        "nextPlaybackTime ?st' = add (max now ?next) (duration frames)"
    by blast
  then show ?thesis
  proof cases
    case same
    show ?thesis
    proof (cases "playbackContext st")
      case True
      with same inv show ?thesis by simp
    next
      case False
      with inv have "scheduled st = []" by (auto simp: playback_inv_def)
      with same show ?thesis by (simp add: playback_inv_def)
    qed
  next
    case more
    have ord: "ordered_schedule add duration (scheduled st)"
      using inv by (simp add: playback_inv_def)
    have "ordered_schedule add duration (scheduled st @ [(max now ?next, frames)])"
    proof (cases "scheduled st = []")
      case True
      then show ?thesis by simp
    next
      case False
      let ?l = "last (scheduled st)"
      from False inv have ctx: "playbackContext st"
        and nxt: "nextPlaybackTime st = add (fst ?l) (duration (snd ?l))"
        by (auto simp: playback_inv_def)
      have a: "add (fst ?l) (duration (snd ?l)) \<le> max now ?next"
        using ctx nxt by simp
      have "fst ?l \<le> add (fst ?l) (duration (snd ?l))" using infl by blast
      from this a have b: "fst ?l \<le> max now ?next" by (rule order_trans)
      from ord a b False show ?thesis by (simp add: ordered_schedule_snoc)
    qed
    with more show ?thesis by (simp add: playback_inv_def)
  qed
qed

lemma playback_inv_run:
  assumes infl: "\<forall>t n. t \<le> add t (duration n)"
  shows "playback_inv add duration st \<Longrightarrow>
         playback_inv add duration (audio_messages add duration ms st)"
proof (induction ms arbitrary: st)
  case Nil
  then show ?case by simp
next
  case (Cons m ms)
  obtain d now where m: "m = (d, now)" by (cases m)
  from Cons.prems have "playback_inv add duration (handleAudioDelta add duration d now st)"
    using infl by (simp add: playback_inv_step)
  then show ?case unfolding m by (simp add: Cons.IH)
qed

lemma handleAudioDelta_schedules:
  assumes "base64Data \<noteq> []" "base64ToArrayBuffer base64Data = Some buf"
    "even (length buf)" "buf \<noteq> []"
  shows "handleAudioDelta add duration base64Data now st =
     st\<lparr>playbackContext := True,
        scheduled := scheduled st @
          [(max now (if playbackContext st then nextPlaybackTime st else 0), length buf div 2)],
        nextPlaybackTime :=
          add (max now (if playbackContext st then nextPlaybackTime st else 0))
            (duration (length buf div 2))\<rparr>"
proof -
  from assms(3,4) have "length buf div 2 \<noteq> 0"
    by (cases buf) (auto elim!: evenE)
  with assms show ?thesis
    by (auto simp: handleAudioDelta_def Let_def max_def)
qed

lemma handleAudioDelta_skips:
  assumes "decoded_frames base64Data = None"
  shows "scheduled (handleAudioDelta add duration base64Data now st) = scheduled st"
    "nextPlaybackTime (handleAudioDelta add duration base64Data now st) =
       (if base64Data \<noteq> [] \<and> \<not> playbackContext st then 0 else nextPlaybackTime st)"
  using assms
  by (auto simp: handleAudioDelta_def decoded_frames_def Let_def split: option.splits if_splits)

lemma scheduled_frames_step:
  "map snd (scheduled (handleAudioDelta add duration d now st)) =
   map snd (scheduled st) @ (case decoded_frames d of None \<Rightarrow> [] | Some n \<Rightarrow> [n])"
proof (cases "decoded_frames d")
  case None
  then show ?thesis by (simp add: handleAudioDelta_skips)
next
  case (Some n)
  then obtain buf where "d \<noteq> []" "base64ToArrayBuffer d = Some buf" "even (length buf)"
    "buf \<noteq> []" "n = length buf div 2"
    by (auto simp: decoded_frames_def split: if_splits option.splits)
  with Some show ?thesis by (simp add: handleAudioDelta_schedules)
qed

lemma scheduled_frames_run:
  "map snd (scheduled (audio_messages add duration ms st)) =
   map snd (scheduled st) @ List.map_filter (\<lambda>m. decoded_frames (fst m)) ms"
proof (induction ms arbitrary: st)
  case Nil
  then show ?case by (simp add: List.map_filter_simps)
next
  case (Cons m ms)
  obtain d now where m: "m = (d, now)" by (cases m)
  show ?case
    unfolding m
    by (simp add: Cons.IH scheduled_frames_step List.map_filter_simps split: option.splits)
qed

lemma js_Cons_nonempty: "js (c # cs) \<noteq> []"
  by (simp add: js_def)

lemma b2ab_examples:
  "base64ToArrayBuffer (js ''AAABAA=='') = Some [0, 0, 1, 0]"
  "base64ToArrayBuffer (js ''AAAA'') = Some [0, 0, 0]"
  "base64ToArrayBuffer (js ''AAABAAAC'') = Some [0, 0, 1, 0, 0, 2]"
  by (simp_all add: js_def base64ToArrayBuffer_def atob_def strip_padding_def
      is_ascii_whitespace_def b64_value_def)

text \<open>
  Claim C9. Assistant audio keeps its arrival order and never overlaps. Every message
  whose data decodes to a non-empty buffer of whole 16-bit frames is scheduled, exactly
  once, at the maximum of the context's current time and the end of the chunk scheduled
  before it, and \<open>nextPlaybackTime\<close> moves to that start plus the chunk's duration; a call
  schedules nothing else. So, over any sequence of \<open>audio_data\<close> messages, the chunks
  scheduled are the decodable ones in their order of arrival, the start times never
  decrease and each start is at least the previous start plus the previous chunk's
  duration. The hypothesis says that adding a duration to a time does not make it
  smaller, which holds for the rounded sum of a non-negative duration.
\<close>

theorem audio_playback_ordered:
  fixes add :: "'t \<Rightarrow> 't \<Rightarrow> ('t::{linorder,zero})"
  assumes "\<And>t n. t \<le> add t (duration n)"
  shows "ordered_schedule add duration
           (scheduled (audio_messages add duration ms initial_playback)) \<and>
         (scheduled (handleAudioDelta add duration d now st) = scheduled st \<or>
          (\<exists>frames. scheduled (handleAudioDelta add duration d now st) =
             scheduled st @
               [(max now (if playbackContext st then nextPlaybackTime st else 0), frames)] \<and>
             nextPlaybackTime (handleAudioDelta add duration d now st) =
               add (max now (if playbackContext st then nextPlaybackTime st else 0))
                 (duration frames))) \<and>
         (d \<noteq> [] \<and> base64ToArrayBuffer d = Some buf \<and> even (length buf) \<and> buf \<noteq> [] \<longrightarrow>
            scheduled (handleAudioDelta add duration d now st) =
              scheduled st @
                [(max now (if playbackContext st then nextPlaybackTime st else 0),
                  length buf div 2)] \<and>
            nextPlaybackTime (handleAudioDelta add duration d now st) =
              add (max now (if playbackContext st then nextPlaybackTime st else 0))
                (duration (length buf div 2))) \<and>
         map snd (scheduled (audio_messages add duration ms initial_playback)) =
           List.map_filter (\<lambda>m. decoded_frames (fst m)) ms"
proof -
  have "playback_inv add duration (initial_playback :: 't playback)"
    by (simp add: playback_inv_def initial_playback_def)
  then have "playback_inv add duration (audio_messages add duration ms initial_playback)"
    using assms by (simp add: playback_inv_run)
  then have 1: "ordered_schedule add duration
           (scheduled (audio_messages add duration ms initial_playback))"
    by (simp add: playback_inv_def)
  have 2: "d \<noteq> [] \<and> base64ToArrayBuffer d = Some buf \<and> even (length buf) \<and> buf \<noteq> [] \<longrightarrow>
            scheduled (handleAudioDelta add duration d now st) =
              scheduled st @
                [(max now (if playbackContext st then nextPlaybackTime st else 0),
                  length buf div 2)] \<and>
            nextPlaybackTime (handleAudioDelta add duration d now st) =
              add (max now (if playbackContext st then nextPlaybackTime st else 0))
                (duration (length buf div 2))"
    by (simp add: handleAudioDelta_schedules)
  have 3: "map snd (scheduled (audio_messages add duration ms initial_playback)) =
           List.map_filter (\<lambda>m. decoded_frames (fst m)) ms"
    using scheduled_frames_run [of add duration ms initial_playback]
    by (simp add: initial_playback_def)
  from handleAudioDelta_cases [of add duration d now st] 1 2 3 show ?thesis by blast
qed

theorem audio_playback_ordered_witness:
  "(\<forall>t n. (t::rat) \<le> t + of_nat n / 24000) \<and>
   js ''AAABAA=='' \<noteq> [] \<and> base64ToArrayBuffer (js ''AAABAA=='') = Some [0, 0, 1, 0] \<and>
   even (length [0, 0, 1, 0 :: 8 word]) \<and>
   scheduled (handleAudioDelta (+) (\<lambda>n. of_nat n / 24000) (js ''AAABAA=='') 5
                (initial_playback :: rat playback)) = [(5, 2)] \<and>
   scheduled (audio_messages (+) (\<lambda>n. of_nat n / 24000)
      [(js ''AAABAA=='', 5), (js ''AAAA'', 6), (js ''AAABAAAC'', 3)]
      (initial_playback :: rat playback)) =
     [(5, 2), (60001 / 12000, 3)] \<and>
   ordered_schedule (+) (\<lambda>n. of_nat n / 24000) [(5::rat, 2), (60001 / 12000, 3)]"
proof -
  let ?dur = "\<lambda>n. (of_nat n :: rat) / 24000"
  have h: "\<And>t n. (t::rat) \<le> t + ?dur n" by simp
  have s: "scheduled (audio_messages (+) ?dur
      [(js ''AAABAA=='', 5), (js ''AAAA'', 6), (js ''AAABAAAC'', 3)]
      (initial_playback :: rat playback)) = [(5, 2), (60001 / 12000, 3)]"
    by (simp add: handleAudioDelta_def initial_playback_def b2ab_examples Let_def
        js_Cons_nonempty)
  from audio_playback_ordered [of "(+)" ?dur
      "[(js ''AAABAA=='', 5), (js ''AAAA'', 6), (js ''AAABAAAC'', 3)]" "js ''AAABAA==''" 5
      "initial_playback :: rat playback" "[0, 0, 1, 0]", OF h] s
  show ?thesis
    by (simp add: b2ab_examples initial_playback_def js_Cons_nonempty)
qed

subsection \<open>WebSocket video relay\<close>

lemma processVideoChunkQueue_cases:
  "processVideoChunkQueue accepts st = st \<or>
   (\<exists>next rest. videoChunksQueue st = next # rest \<and>
      sourceBuffer st = Some False \<and> mediaSource st = Some MsOpen \<and>
      processVideoChunkQueue accepts st =
        st\<lparr>videoChunksQueue := rest,
           appendCalls := appendCalls st @
             [\<lparr>chunk = next, updating_at_call = False, ready_state_at_call = MsOpen\<rparr>],
           sourceBuffer := Some accepts\<rparr>)"
  by (auto simp: processVideoChunkQueue_def split: option.splits list.splits)

lemma video_inv_process:
  assumes "video_inv r st"
  shows "video_inv r (processVideoChunkQueue accepts st)"
  using processVideoChunkQueue_cases [of accepts st] assms
  by (auto simp: video_inv_def append_guarded_def)

lemma video_inv_flags:
  "video_inv r (st\<lparr>sourceBuffer := b\<rparr>) = video_inv r st"
  "video_inv r (st\<lparr>mediaSource := m\<rparr>) = video_inv r st"
  "video_inv r (st\<lparr>videoChunkCount := n\<rparr>) = video_inv r st"
  by (simp_all add: video_inv_def)

lemma video_inv_push:
  assumes "video_inv r st"
  shows "video_inv (r @ [c]) (st\<lparr>videoChunksQueue := videoChunksQueue st @ [c]\<rparr>)"
proof -
  from assms have "subseq (map chunk (appendCalls st) @ videoChunksQueue st) r"
    by (simp add: video_inv_def)
  then have "subseq ((map chunk (appendCalls st) @ videoChunksQueue st) @ [c]) (r @ [c])"
    by (rule list_emb_append_mono) simp
  with assms show ?thesis by (simp add: video_inv_def)
qed

lemma video_inv_more:
  assumes "video_inv r st"
  shows "video_inv (r @ r') st"
  using assms unfolding video_inv_def by (auto intro: subseq_rev_drop_many)

lemma video_inv_cleanup:
  assumes "video_inv r st"
  shows "video_inv r (cleanupWebSocketVideo st)"
proof -
  have "subseq (map chunk (appendCalls st)) (map chunk (appendCalls st) @ videoChunksQueue st)"
    by (rule list_emb_prefix) simp
  moreover from assms have "subseq (map chunk (appendCalls st) @ videoChunksQueue st) r"
    by (simp add: video_inv_def)
  ultimately have "subseq (map chunk (appendCalls st)) r"
    by (rule subseq_order.trans)
  with assms show ?thesis by (simp add: video_inv_def cleanupWebSocketVideo_def)
qed

lemma video_inv_step:
  assumes "video_inv r st"
  shows "video_inv (r @ received_chunks [e]) (video_step e st)"
proof (cases e)
  case (VideoData d accepts)
  show ?thesis
  proof (cases "d = [] \<or> atob d = None")
    case True
    with assms VideoData show ?thesis
      by (auto simp: handleVideoChunk_def video_inv_flags)
  next
    case False
    then obtain b where b: "atob d = Some b" and d: "d \<noteq> []" by auto
    have "video_inv (r @ [map word_of_nat b])
       (st\<lparr>videoChunkCount := videoChunkCount st + 1,
           videoChunksQueue := videoChunksQueue st @ [map word_of_nat b]\<rparr>)"
      using video_inv_push [OF assms, of "map word_of_nat b"]
      by (simp add: video_inv_def)
    then show ?thesis using VideoData b d
      by (simp add: handleVideoChunk_def video_inv_process)
  qed
next
  case (UpdateEnd accepts)
  with assms show ?thesis
    by (cases "sourceBuffer st") (simp_all add: video_inv_process video_inv_flags)
next
  case (StaleUpdateEnd accepts)
  with assms show ?thesis by (simp add: video_inv_process)
next
  case (SourceOpen created)
  with assms show ?thesis
    by (cases "mediaSource st")
       (auto simp: on_sourceopen_def video_inv_flags split: option.splits ms_ready_state.splits)
next
  case (ReadyState rs)
  with assms show ?thesis by (cases "mediaSource st") (simp_all add: video_inv_flags)
next
  case (Setup supported)
  with assms show ?thesis
    by (simp add: setupWebSocketVideoPlayback_def Let_def video_inv_flags video_inv_cleanup)
next
  case Cleanup
  with assms show ?thesis by (simp add: video_inv_cleanup)
qed

lemma received_chunks_Cons: "received_chunks (e # es) = received_chunks [e] @ received_chunks es"
  by (cases e) (auto split: option.splits)

lemma video_inv_run:
  "video_inv r st \<Longrightarrow> video_inv (r @ received_chunks es) (video_run es st)"
proof (induction es arbitrary: r st)
  case Nil
  then show ?case by simp
next
  case (Cons e es)
  from Cons.prems have "video_inv (r @ received_chunks [e]) (video_step e st)"
    by (rule video_inv_step)
  from Cons.IH [OF this] show ?case
    by (simp add: received_chunks_Cons [of e es])
qed

text \<open>
  Claim C3. The relay never calls \<open>appendBuffer\<close> while an append is in progress or while
  the media source is not open: one call of \<open>processVideoChunkQueue\<close> either changes
  nothing or takes exactly the head of the queue and appends it, and then only with
  \<open>sourceBuffer.updating\<close> false and \<open>mediaSource.readyState\<close> open; over every sequence of
  events each recorded call was made in such a state, and the chunks appended, followed by
  those still queued, are a subsequence of the chunks received, in their order of arrival
  (so no chunk is appended twice or out of order).
\<close>

theorem video_append_guarded_in_order:
  "(processVideoChunkQueue accepts st = st \<or>
    (\<exists>next rest. videoChunksQueue st = next # rest \<and>
       sourceBuffer st = Some False \<and> mediaSource st = Some MsOpen \<and>
       videoChunksQueue (processVideoChunkQueue accepts st) = rest \<and>
       appendCalls (processVideoChunkQueue accepts st) =
         appendCalls st @
           [\<lparr>chunk = next, updating_at_call = False, ready_state_at_call = MsOpen\<rparr>])) \<and>
   list_all append_guarded (appendCalls (video_run es initial_video)) \<and>
   subseq (map chunk (appendCalls (video_run es initial_video)) @
             videoChunksQueue (video_run es initial_video))
          (received_chunks es)"
proof -
  have "video_inv [] initial_video"
    by (simp add: video_inv_def initial_video_def)
  from video_inv_run [OF this, of es]
  have "video_inv (received_chunks es) (video_run es initial_video)" by simp
  with processVideoChunkQueue_cases [of accepts st] show ?thesis
    by (auto simp: video_inv_def)
qed

theorem video_append_guarded_in_order_witness:
  "let es = [Setup True, SourceOpen True, VideoData (js ''AAAA'') True,
             VideoData (js ''AQID'') True, VideoData (js ''BAUG'') True, UpdateEnd True];
       st = video_run es initial_video
   in received_chunks es = [[0, 0, 0], [1, 2, 3], [4, 5, 6]] \<and>
      map chunk (appendCalls st) = [[0, 0, 0], [1, 2, 3]] \<and>
      videoChunksQueue st = [[4, 5, 6]] \<and>
      list_all append_guarded (appendCalls st) \<and>
      processVideoChunkQueue True st = st"
  using video_append_guarded_in_order [of True
      "video_run [Setup True, SourceOpen True, VideoData (js ''AAAA'') True,
             VideoData (js ''AQID'') True, VideoData (js ''BAUG'') True, UpdateEnd True]
         initial_video"
      "[Setup True, SourceOpen True, VideoData (js ''AAAA'') True,
             VideoData (js ''AQID'') True, VideoData (js ''BAUG'') True, UpdateEnd True]"]
  by (simp add: Let_def js_def initial_video_def setupWebSocketVideoPlayback_def
      cleanupWebSocketVideo_def on_sourceopen_def handleVideoChunk_def
      processVideoChunkQueue_def atob_def strip_padding_def is_ascii_whitespace_def
      b64_value_def append_guarded_def)

subsection \<open>PCM16 conversion\<close>

lemma sint16_of_int:
  assumes "- 32768 \<le> k" "k \<le> 32767"
  shows "sint (word_of_int k :: 16 word) = k"
proof -
  have "signed_take_bit 15 k = k"
    using assms by (simp add: signed_take_bit_int_eq_self)
  then show ?thesis by (simp add: signed_of_int)
qed

lemma clamp_scale_range: "- 32768 \<le> clamp_scale q \<and> clamp_scale q \<le> 32767"
proof -
  let ?s = "max (- 1) (min 1 q)"
  have s: "- 1 \<le> ?s" "?s \<le> 1" by simp_all
  show ?thesis
  proof (cases "?s < 0")
    case True
    have "- 32768 \<le> ?s * 32768" using s(1) by linarith
    then have "- 32768 \<le> \<lceil>?s * 32768\<rceil>" by linarith
    moreover have "?s * 32768 \<le> 0" using True by linarith
    then have "\<lceil>?s * 32768\<rceil> \<le> 0" by linarith
    ultimately show ?thesis using True
      by (simp add: clamp_scale_def truncate_rat_def Let_def)
  next
    case False
    have "0 \<le> ?s * 32767" using False by linarith
    then have "0 \<le> \<lfloor>?s * 32767\<rfloor>" by linarith
    moreover have "?s * 32767 \<le> 32767" using s(2) by linarith
    then have "\<lfloor>?s * 32767\<rfloor> \<le> 32767" by linarith
    ultimately show ?thesis using False
      by (simp add: clamp_scale_def truncate_rat_def Let_def)
  qed
qed

lemma pcm16_sample_Fin: "sint (pcm16_sample (Fin q)) = clamp_scale q"
proof -
  have "pcm16_sample (Fin q) = word_of_int (clamp_scale q)"
    by (auto simp: pcm16_sample_def clamp_scale_def math_max_def math_min_def Let_def
        max_def min_def)
  then show ?thesis using clamp_scale_range [of q] by (simp add: sint16_of_int)
qed

lemma pcm16_sample_special:
  "sint (pcm16_sample NaN) = 0" "sint (pcm16_sample PosInf) = 32767"
  "sint (pcm16_sample NegInf) = - 32768"
  by (simp_all add: pcm16_sample_def math_max_def math_min_def truncate_rat_def)

lemma truncate_rat_mono: "a \<le> b \<Longrightarrow> truncate_rat a \<le> truncate_rat b"
proof -
  have "\<lceil>a\<rceil> \<le> \<lfloor>b\<rfloor>" if "a < 0" "\<not> b < 0"
  proof -
    from that have "\<lceil>a\<rceil> \<le> 0" "0 \<le> \<lfloor>b\<rfloor>" by linarith+
    then show ?thesis by linarith
  qed
  then show "a \<le> b \<Longrightarrow> truncate_rat a \<le> truncate_rat b"
    unfolding truncate_rat_def by (auto intro: floor_mono ceiling_mono)
qed

lemma clamp_scale_mono: assumes "a \<le> b" shows "clamp_scale a \<le> clamp_scale b"
proof -
  let ?f = "\<lambda>s::rat. if s < 0 then s * 32768 else s * 32767"
  have m: "max (- 1) (min 1 a) \<le> max (- 1) (min 1 b)" using assms by auto
  have "?f x \<le> ?f y" if "x \<le> y" for x y
    using that by (auto simp: not_less)
  from this [OF m] show ?thesis
    unfolding clamp_scale_def Let_def by (rule truncate_rat_mono)
qed


lemma pcm16_sample_mono:
  assumes "js_le x y"
  shows "sint (pcm16_sample x) \<le> sint (pcm16_sample y)"
proof (cases x)
  case NaN
  with assms show ?thesis by (simp add: js_le_def)
next
  case NegInf
  show ?thesis
  proof (cases y)
    case (Fin b)
    with NegInf clamp_scale_range [of b] show ?thesis
      by (simp add: pcm16_sample_Fin pcm16_sample_special)
  qed (use assms NegInf in \<open>simp_all add: js_le_def pcm16_sample_special\<close>)
next
  case (Fin a)
  show ?thesis
  proof (cases y)
    case (Fin b)
    with \<open>x = Fin a\<close> assms have "a \<le> b" by (simp add: js_le_def)
    then show ?thesis using Fin \<open>x = Fin a\<close>
      by (simp add: pcm16_sample_Fin clamp_scale_mono)
  next
    case PosInf
    with Fin clamp_scale_range [of a] show ?thesis
      by (simp add: pcm16_sample_Fin pcm16_sample_special)
  qed (use assms Fin in \<open>simp_all add: js_le_def\<close>)
next
  case PosInf
  with assms show ?thesis by (cases y) (simp_all add: js_le_def)
qed

lemma process_posted:
  "bufferSize p > 0 \<Longrightarrow> length (buffer p) < bufferSize p \<Longrightarrow>
   concat (posted (process data p)) @ map pcm16_sample (buffer (process data p)) =
   concat (posted p) @ map pcm16_sample (buffer p @ data)"
proof (induction data arbitrary: p)
  case Nil
  then show ?case by simp
next
  case (Cons x data)
  show ?case
  proof (cases "length (buffer p @ [x]) \<ge> bufferSize p")
    case True
    let ?p' = "p\<lparr>buffer := [], posted := posted p @ [map pcm16_sample (buffer p @ [x])]\<rparr>"
    have "bufferSize ?p' > 0" "length (buffer ?p') < bufferSize ?p'" using Cons.prems by simp_all
    from Cons.IH [OF this] True show ?thesis by (simp add: Let_def)
  next
    case False
    let ?p' = "p\<lparr>buffer := buffer p @ [x]\<rparr>"
    have "bufferSize ?p' > 0" "length (buffer ?p') < bufferSize ?p'" using Cons.prems False by simp_all
    from Cons.IH [OF this] False show ?thesis by (simp add: Let_def)
  qed
qed

text \<open>
  Claim C1. For every sample the worklet processes, the conversion clamps the sample to
  \<open>[-1, 1]\<close> and scales negative samples by 0x8000 and the others by 0x7FFF: the stored
  16-bit value is exactly the integer part of that product (the store does not wrap), it
  lies in \<open>[-32768, 32767]\<close>, the sample 0 gives 0, and a larger sample never gives a
  smaller value. The values posted by \<open>process\<close> are the conversions of the samples
  received, in order.
\<close>

theorem pcm16_conversion:
  "sint (pcm16_sample (Fin q)) = clamp_scale q \<and>
   - 32768 \<le> sint (pcm16_sample x) \<and> sint (pcm16_sample x) \<le> 32767 \<and>
   pcm16_sample (Fin 0) = 0 \<and>
   (js_le x y \<longrightarrow> sint (pcm16_sample x) \<le> sint (pcm16_sample y)) \<and>
   (0 < bufferSize p \<and> length (buffer p) < bufferSize p \<longrightarrow>
      concat (posted (process data p)) @ map pcm16_sample (buffer (process data p)) =
      concat (posted p) @ map pcm16_sample (buffer p @ data))"
proof -
  have range: "- 32768 \<le> sint (pcm16_sample x) \<and> sint (pcm16_sample x) \<le> 32767"
    using clamp_scale_range by (cases x) (simp_all add: pcm16_sample_Fin pcm16_sample_special)
  have zero: "pcm16_sample (Fin 0) = 0"
    by (simp add: pcm16_sample_def math_max_def math_min_def truncate_rat_def)
  from range zero show ?thesis
    by (simp add: pcm16_sample_Fin pcm16_sample_mono process_posted)
qed

theorem pcm16_conversion_witness:
  "js_le (Fin (- 1 / 2)) (Fin (1 / 3)) \<and>
   sint (pcm16_sample (Fin (- 1 / 2))) = - 16384 \<and>
   sint (pcm16_sample (Fin (1 / 3))) = 10922 \<and>
   sint (pcm16_sample (Fin (- 1 / 2))) \<le> sint (pcm16_sample (Fin (1 / 3))) \<and>
   posted (process [Fin (- 3), Fin (1 / 3), Fin 2] \<lparr>bufferSize = 2, buffer = [], posted = []\<rparr>)
     = [[- 32768, 10922]]"
proof -
  have le: "js_le (Fin (- 1 / 2)) (Fin (1 / 3))"
    by (simp add: js_le_def)
  have a: "clamp_scale (- 1 / 2) = - 16384" "clamp_scale (1 / 3) = 10922"
    by code_simp+
  have b: "sint (pcm16_sample (Fin (- 1 / 2))) = - 16384"
    using pcm16_conversion [of "- 1 / 2" NaN NaN \<open>\<lparr>bufferSize = 2, buffer = [], posted = []\<rparr>\<close> "[]"] a
    by simp
  have c: "sint (pcm16_sample (Fin (1 / 3))) = 10922"
    using pcm16_conversion [of "1 / 3" NaN NaN \<open>\<lparr>bufferSize = 2, buffer = [], posted = []\<rparr>\<close> "[]"] a
    by simp
  have d: "posted (process [Fin (- 3), Fin (1 / 3), Fin 2]
              \<lparr>bufferSize = 2, buffer = [], posted = []\<rparr>) = [[- 32768, 10922]]"
    by code_simp
  from pcm16_conversion [of 0 "Fin (- 1 / 2)" "Fin (1 / 3)"
      \<open>\<lparr>bufferSize = 2, buffer = [], posted = []\<rparr>\<close> "[Fin (- 3), Fin (1 / 3), Fin 2]"]
    le b c d show ?thesis by simp
qed

subsection \<open>Outgoing messages of the avatar client\<close>

lemma sent_of_flags [simp]:
  "sent_of P (st\<lparr>ws := a\<rparr>) = sent_of P st"
  "sent_of P (st\<lparr>isConnected := b\<rparr>) = sent_of P st"
  "sent_of P (st\<lparr>isConnecting := b\<rparr>) = sent_of P st"
  "sent_of P (st\<lparr>isRecording := b\<rparr>) = sent_of P st"
  "sent_of P (st\<lparr>audioChunksSent := n\<rparr>) = sent_of P st"
  "sent_of P (st\<lparr>avatarEnabled := b\<rparr>) = sent_of P st"
  "sent_of P (st\<lparr>avatarOutputMode := m\<rparr>) = sent_of P st"
  "sent_of P (st\<lparr>isSpeaking := b\<rparr>) = sent_of P st"
  "sent_of P (st\<lparr>peerConnection := b\<rparr>) = sent_of P st"
  "sent_of P (st\<lparr>lastSceneUpdate := t\<rparr>) = sent_of P st"
  "sent_of P (st\<lparr>pendingAssistantText := x\<rparr>) = sent_of P st"
  "sent_of P (st\<lparr>messages := ms\<rparr>) = sent_of P st"
  "sent_of P (st\<lparr>page := d\<rparr>) = sent_of P st"
  by (simp_all add: sent_of_def)

lemma map_sent_update:
  assumes "filter P (sent y) = filter P (sent (xs ! i))"
  shows "map (\<lambda>s. filter P (sent s)) (xs[i := y]) = map (\<lambda>s. filter P (sent s)) xs"
proof (cases "i < length xs")
  case True
  have "map (\<lambda>s. filter P (sent s)) (xs[i := y]) =
        (map (\<lambda>s. filter P (sent s)) xs)[i := filter P (sent (xs ! i))]"
    using assms by (simp add: map_update)
  also have "\<dots> = map (\<lambda>s. filter P (sent s)) xs"
    using True by (metis list_update_id nth_map)
  finally show ?thesis .
next
  case False
  then have "xs[i := y] = xs" by (simp add: list_update_beyond)
  then show ?thesis by simp
qed

lemma sent_of_sockets_update:
  assumes "filter P (sent y) = filter P (sent (sockets st ! i))"
  shows "sent_of P (st\<lparr>sockets := (sockets st)[i := y]\<rparr>) = sent_of P st"
  using assms by (simp add: sent_of_def map_sent_update)

lemma sent_of_set_socket:
  assumes "\<And>s. filter P (sent (f s)) = filter P (sent s)"
  shows "sent_of P (set_socket i f st) = sent_of P st"
  unfolding set_socket_def by (rule sent_of_sockets_update) (simp add: assms)

lemma sent_of_new_socket:
  "sent_of P (st\<lparr>sockets := sockets st @ [s]\<rparr>) = sent_of P st @ filter P (sent s)"
  by (simp add: sent_of_def)

lemma sent_of_addMessage [simp]: "sent_of P (addMessage r t st) = sent_of P st"
  by (simp add: addMessage_def)

lemma sent_of_setConnecting [simp]: "sent_of P (setConnecting b st) = sent_of P st"
  by (simp add: setConnecting_def)

lemma sent_of_ws_send:
  assumes "ws_send m st = Some st'" "\<not> P m"
  shows "sent_of P st' = sent_of P st"
  using assms
  by (auto simp: ws_send_def sent_of_sockets_update split: option.splits if_splits ws_ready_state.splits)

lemma sent_of_handleDisconnect [simp]: "sent_of P (handleDisconnect st) = sent_of P st"
proof -
  have "filter P (sent (socket_close s)) = filter P (sent s)" for s
    by (simp add: socket_close_def split: ws_ready_state.splits)
  then show ?thesis
    by (auto simp: handleDisconnect_def Let_def sent_of_def map_sent_update split: option.splits)
qed

lemma sent_of_connectSession [simp]: "sent_of P (connectSession f st) = sent_of P st"
  by (auto simp: connectSession_def Let_def sent_of_def addMessage_def setConnecting_def
      split: option.splits)

lemma sent_of_disconnect:
  "\<not> P StopSession \<Longrightarrow> sent_of P (disconnect st) = sent_of P st"
  by (auto simp: disconnect_def sent_of_ws_send split: option.splits)

lemma sent_of_toggleConnection:
  "\<not> P StopSession \<Longrightarrow> sent_of P (toggleConnection f st) = sent_of P st"
  by (simp add: toggleConnection_def sent_of_disconnect)

lemma sent_of_ws_onopen:
  "(\<And>c. \<not> P (StartSession c)) \<Longrightarrow> sent_of P (ws_onopen i st) = sent_of P st"
  by (auto simp: ws_onopen_def Let_def sent_of_ws_send split: option.splits)

lemma sent_of_onAssistantDelta [simp]: "sent_of P (onAssistantDelta t st) = sent_of P st"
  by (simp add: onAssistantDelta_def Let_def)

lemma sent_of_handleServerMessage [simp]: "sent_of P (handleServerMessage m st) = sent_of P st"
  by (cases m) (simp_all add: onSessionStarted_def onSpeechStarted_def Let_def)

lemma sent_of_ws_onerror [simp]: "sent_of P (ws_onerror st) = sent_of P st"
  by (simp add: ws_onerror_def)

lemma sent_of_ws_onclose [simp]: "sent_of P (ws_onclose st) = sent_of P st"
  by (simp add: ws_onclose_def)

lemma sent_of_sendTextMessage:
  "(\<And>t. \<not> P (SendText t)) \<Longrightarrow> sent_of P (sendTextMessage st) = sent_of P st"
  by (auto simp: sendTextMessage_def Let_def sent_of_ws_send split: option.splits)

lemma sent_of_throttled:
  "\<not> P UpdateScene \<Longrightarrow> sent_of P (throttledUpdateAvatarScene now st) = sent_of P st"
  by (auto simp: throttledUpdateAvatarScene_def updateAvatarScene_def sent_of_ws_send
      split: option.splits)

lemma sent_of_send_sdp_offer:
  "(\<And>s. \<not> P (AvatarSdpOffer s)) \<Longrightarrow> sent_of P (send_sdp_offer d st) = sent_of P st"
  by (auto simp: send_sdp_offer_def sent_of_ws_send split: option.splits)

lemma sent_of_toggleMicrophone [simp]: "sent_of P (toggleMicrophone st) = sent_of P st"
  by (simp add: toggleMicrophone_def)

lemma audio_step:
  assumes "sent_of is_audio_chunk (app_step e st) \<noteq> sent_of is_audio_chunk st"
  shows "(\<exists>data. e = WorkletMessage data) \<and> isConnected st \<and> isRecording st \<and> ws_is_open st"
proof (cases e)
  case (WorkletMessage data)
  with assms show ?thesis
    by (auto simp: worklet_onmessage_def split: if_splits)
qed (use assms in \<open>simp_all add: sent_of_toggleConnection sent_of_ws_onopen
       sent_of_set_socket sent_of_sendTextMessage sent_of_throttled sent_of_send_sdp_offer
       split: if_splits\<close>)


lemma not_recording_step:
  assumes "\<not> isRecording st" "\<not> is_toggle e"
  shows "\<not> isRecording (app_step e st)"
proof (cases e)
  case (WsMessage i m)
  have "\<not> isRecording (handleServerMessage m st)"
    using assms(1)
    by (cases m)
       (simp_all add: onSessionStarted_def onSpeechStarted_def onAssistantDelta_def
          addMessage_def setConnecting_def handleDisconnect_def Let_def split: option.splits)
  with WsMessage assms show ?thesis by simp
qed (use assms in \<open>auto simp: toggleConnection_def disconnect_def handleDisconnect_def
       connectSession_def addMessage_def setConnecting_def ws_onopen_def ws_send_def
       set_socket_def ws_onerror_def ws_onclose_def worklet_onmessage_def
       sendTextMessage_def throttledUpdateAvatarScene_def updateAvatarScene_def
       send_sdp_offer_def Let_def
       split: option.splits ws_ready_state.splits if_splits\<close>)

lemma not_recording_run:
  "\<not> isRecording st \<Longrightarrow> \<not> list_ex is_toggle evs \<Longrightarrow>
   sent_of is_audio_chunk (app_run evs st) = sent_of is_audio_chunk st \<and>
   \<not> isRecording (app_run evs st)"
proof (induction evs arbitrary: st)
  case Nil
  then show ?case by simp
next
  case (Cons e evs)
  from Cons.prems have e: "\<not> is_toggle e" and evs: "\<not> list_ex is_toggle evs" by simp_all
  from Cons.prems(1) e have r: "\<not> isRecording (app_step e st)" by (rule not_recording_step)
  from audio_step [of e st] Cons.prems(1)
  have "sent_of is_audio_chunk (app_step e st) = sent_of is_audio_chunk st" by blast
  with Cons.IH [OF r evs] show ?case by simp
qed

text \<open>
  Claim C4. An \<open>audio_chunk\<close> message is sent only when the session is connected, the
  microphone toggle is on and the WebSocket is open: a step that changes the
  \<open>audio_chunk\<close> messages transmitted is a message of the worklet handled in such a state.
  Once recording is off, no \<open>audio_chunk\<close> is sent and recording stays off through every
  sequence of events without a microphone toggle; and \<open>toggleMicrophone\<close> turns a running
  recording off.
\<close>

theorem audio_chunk_guarded:
  "(sent_of is_audio_chunk (app_step e st) \<noteq> sent_of is_audio_chunk st \<longrightarrow>
      (\<exists>data. e = WorkletMessage data) \<and> isConnected st \<and> isRecording st \<and> ws_is_open st) \<and>
   (\<not> isRecording st \<and> \<not> list_ex is_toggle evs \<longrightarrow>
      sent_of is_audio_chunk (app_run evs st) = sent_of is_audio_chunk st \<and>
      \<not> isRecording (app_run evs st)) \<and>
   (isConnected st \<and> isRecording st \<longrightarrow> \<not> isRecording (toggleMicrophone st))"
  using audio_step [of e st] not_recording_run [of st evs]
  by (auto simp: toggleMicrophone_def)

theorem audio_chunk_guarded_witness:
  "let s0 = \<lparr>readyState = OPEN, sent = [], close_fired = False, cs_endpoint = js ''e'',
             cs_isAgent = False, cs_apiKey = Some (js ''k''), cs_entraToken = None\<rparr>;
       on = (initial_app sample_page)
              \<lparr>ws := Some 0, sockets := [s0], isConnected := True, isRecording := True\<rparr>;
       off = toggleMicrophone on
   in sent_of is_audio_chunk (app_step (WorkletMessage [1, 2, 3]) on) = [AudioChunk (js ''AQID'')] \<and>
      sent_of is_audio_chunk on = [] \<and>
      isConnected on \<and> isRecording on \<and> ws_is_open on \<and>
      \<not> isRecording off \<and>
      \<not> list_ex is_toggle [WorkletMessage [4, 5, 6], SendTextMessage] \<and>
      sent_of is_audio_chunk (app_run [WorkletMessage [4, 5, 6], SendTextMessage] off) = []"
proof -
  let ?s0 = "\<lparr>readyState = OPEN, sent = [], close_fired = False, cs_endpoint = js ''e'',
             cs_isAgent = False, cs_apiKey = Some (js ''k''), cs_entraToken = None\<rparr>"
  let ?on = "(initial_app sample_page)
              \<lparr>ws := Some 0, sockets := [?s0], isConnected := True, isRecording := True\<rparr>"
  have a: "sent_of is_audio_chunk (app_step (WorkletMessage [1, 2, 3]) ?on) =
           [AudioChunk (js ''AQID'')]"
    by (simp add: worklet_onmessage_def ws_is_open_def ws_send_def arrayBufferToBase64_def
        btoa_def sent_of_def b64_char_def js_def)
  have b: "sent_of is_audio_chunk ?on = []"
    by (simp add: sent_of_def)
  have c: "\<not> isRecording (toggleMicrophone ?on)"
    by (simp add: toggleMicrophone_def)
  have d: "sent_of is_audio_chunk (toggleMicrophone ?on) = []"
    by (simp add: toggleMicrophone_def sent_of_def)
  from audio_chunk_guarded [of "WorkletMessage [1, 2, 3]" ?on "[]"]
    audio_chunk_guarded [of ToggleMicrophone "toggleMicrophone ?on"
      "[WorkletMessage [4, 5, 6], SendTextMessage]"] a b c d
  show ?thesis by (simp add: Let_def)
qed

subsection \<open>The first message on a socket\<close>

lemma nth_update_if:
  "xs[i := x] ! j = (if i = j \<and> i < length xs then x else xs ! j)"
  by (cases "i < length xs") (simp_all add: nth_list_update list_update_beyond)

lemma first_message_ok_state [simp]:
  "first_message_ok (s\<lparr>readyState := r\<rparr>) = first_message_ok s"
  "first_message_ok (s\<lparr>close_fired := b\<rparr>) = first_message_ok s"
  by (simp_all add: first_message_ok_def closure_valid_def;
      cases "sent s"; simp; cases "hd (sent s)"; simp)+

lemma first_message_ok_snoc:
  "first_message_ok s \<Longrightarrow> sent s \<noteq> [] \<Longrightarrow> first_message_ok (s\<lparr>sent := sent s @ [m]\<rparr>)"
  by (cases "sent s"; cases "hd (sent s)") (simp_all add: first_message_ok_def closure_valid_def)

lemma fm_none: "fm_inv w xs \<Longrightarrow> fm_inv None xs"
  by (simp add: fm_inv_def)

lemma fm_send:
  assumes "fm_inv w xs" "w = Some j" "readyState (xs ! j) = OPEN"
  shows "fm_inv w (xs[j := (xs ! j)\<lparr>sent := sent (xs ! j) @ [m]\<rparr>])"
proof -
  from assms have j: "j < length xs" and ne: "sent (xs ! j) \<noteq> []"
    by (auto simp: fm_inv_def)
  with assms show ?thesis
    by (auto simp: fm_inv_def nth_update_if first_message_ok_snoc)
qed

lemma fm_update_state:
  assumes "fm_inv w xs" "readyState (f (xs ! i)) \<noteq> OPEN"
    "first_message_ok (f (xs ! i)) = first_message_ok (xs ! i)"
  shows "fm_inv w (xs[i := f (xs ! i)])"
  using assms by (auto simp: fm_inv_def nth_update_if)

lemma fm_close:
  assumes "fm_inv w xs"
  shows "fm_inv None (xs[j := socket_close (xs ! j)])"
proof -
  have "first_message_ok (socket_close s) = first_message_ok s" for s
    by (simp add: socket_close_def split: ws_ready_state.splits)
  with assms show ?thesis
    by (auto simp: fm_inv_def nth_update_if socket_close_def split: ws_ready_state.splits)
qed

lemma fm_new:
  assumes "fm_inv w xs" "closure_valid c" "sent c = []" "readyState c = CONNECTING"
  shows "fm_inv (Some (length xs)) (xs @ [c])"
  using assms by (auto simp: fm_inv_def nth_append first_message_ok_def)

lemma app_inv_ws_send:
  assumes "ws_send m st = Some st'" "app_inv st"
  shows "app_inv st'"
proof (cases "ws_is_open st")
  case True
  then obtain j where j: "ws st = Some j" "j < length (sockets st)"
      "readyState (sockets st ! j) = OPEN"
    by (auto simp: ws_is_open_def split: option.splits)
  with assms(1) have "st' = st\<lparr>sockets := (sockets st)
      [j := (sockets st ! j)\<lparr>sent := sent (sockets st ! j) @ [m]\<rparr>]\<rparr>"
    by (simp add: ws_send_def)
  with assms(2) j show ?thesis by (simp add: app_inv_def fm_send)
next
  case False
  with assms(1) have "st' = st"
    by (auto simp: ws_send_def ws_is_open_def split: option.splits if_splits ws_ready_state.splits)
  with assms(2) show ?thesis by simp
qed

lemma app_inv_flags [simp]:
  "app_inv (st\<lparr>isConnected := b\<rparr>) = app_inv st"
  "app_inv (st\<lparr>isConnecting := b\<rparr>) = app_inv st"
  "app_inv (st\<lparr>isRecording := b\<rparr>) = app_inv st"
  "app_inv (st\<lparr>audioChunksSent := n\<rparr>) = app_inv st"
  "app_inv (st\<lparr>avatarEnabled := b\<rparr>) = app_inv st"
  "app_inv (st\<lparr>avatarOutputMode := m\<rparr>) = app_inv st"
  "app_inv (st\<lparr>isSpeaking := b\<rparr>) = app_inv st"
  "app_inv (st\<lparr>peerConnection := b\<rparr>) = app_inv st"
  "app_inv (st\<lparr>lastSceneUpdate := t\<rparr>) = app_inv st"
  "app_inv (st\<lparr>pendingAssistantText := x\<rparr>) = app_inv st"
  "app_inv (st\<lparr>messages := ms\<rparr>) = app_inv st"
  "app_inv (st\<lparr>page := d\<rparr>) = app_inv st"
  by (simp_all add: app_inv_def)

lemma app_inv_addMessage [simp]: "app_inv (addMessage r t st) = app_inv st"
  by (simp add: addMessage_def)

lemma app_inv_setConnecting [simp]: "app_inv (setConnecting b st) = app_inv st"
  by (simp add: setConnecting_def)

lemma app_inv_handleDisconnect: "app_inv st \<Longrightarrow> app_inv (handleDisconnect st)"
  by (auto simp: handleDisconnect_def Let_def app_inv_def fm_close split: option.splits)

lemma app_inv_connectSession: "app_inv st \<Longrightarrow> app_inv (connectSession f st)"
  by (auto simp: connectSession_def Let_def app_inv_def addMessage_def setConnecting_def
      closure_valid_def intro!: fm_new split: option.splits)

lemma app_inv_disconnect: "app_inv st \<Longrightarrow> app_inv (disconnect st)"
  by (auto simp: disconnect_def intro!: app_inv_handleDisconnect
      dest: app_inv_ws_send split: option.splits)

lemma app_inv_toggleConnection: "app_inv st \<Longrightarrow> app_inv (toggleConnection f st)"
  by (simp add: toggleConnection_def app_inv_disconnect app_inv_connectSession)

lemma app_inv_handleServerMessage: "app_inv st \<Longrightarrow> app_inv (handleServerMessage m st)"
  by (cases m)
     (simp_all add: onSessionStarted_def onSpeechStarted_def onAssistantDelta_def Let_def
        app_inv_handleDisconnect)

lemma app_inv_simple_handlers:
  assumes "app_inv st"
  shows "app_inv (worklet_onmessage data st)" "app_inv (toggleMicrophone st)"
    "app_inv (sendTextMessage st)" "app_inv (throttledUpdateAvatarScene now st)"
    "app_inv (send_sdp_offer d st)" "app_inv (ws_onerror st)" "app_inv (ws_onclose st)"
  using assms
  by (auto simp: worklet_onmessage_def toggleMicrophone_def sendTextMessage_def
      throttledUpdateAvatarScene_def updateAvatarScene_def send_sdp_offer_def
      ws_onerror_def ws_onclose_def Let_def app_inv_handleDisconnect
      dest: app_inv_ws_send split: option.splits)


lemma map_of_set_property:
  "map_of (set_property k v c) k' = (if k' = k then Some v else map_of c k')"
  by (induction c) auto

lemma gatherConfig_no_credentials:
  "map_of (gatherConfig d) ''endpoint'' = None"
  "map_of (gatherConfig d) ''apiKey'' = None"
  "map_of (gatherConfig d) ''entraToken'' = None"
  by (simp_all add: gatherConfig_def Let_def)

lemma start_config_ok:
  assumes "closure_valid c"
  shows "start_session_for c (StartSession (start_config c d))"
  using assms
  by (auto simp: start_config_def closure_valid_def Let_def map_of_set_property
      gatherConfig_no_credentials split: option.splits if_splits)

lemma start_session_for_state [simp]:
  "start_session_for (s\<lparr>readyState := r\<rparr>) m = start_session_for s m"
  "start_session_for (s\<lparr>sent := l\<rparr>) m = start_session_for s m"
  by (cases m; simp)+

lemma closure_valid_state [simp]:
  "closure_valid (s\<lparr>readyState := r\<rparr>) = closure_valid s"
  "closure_valid (s\<lparr>sent := l\<rparr>) = closure_valid s"
  by (simp_all add: closure_valid_def)

lemma ws_onopen_eq:
  "ws_onopen i st =
     (case ws_send (StartSession (start_config (sockets st ! i) (page st))) st of
        None \<Rightarrow> st | Some st1 \<Rightarrow> st1)"
  by (simp add: ws_onopen_def start_config_def Let_def)

lemma app_inv_onopen:
  assumes inv: "app_inv st" and i: "i < length (sockets st)"
  shows "app_inv (ws_onopen i (set_socket i (\<lambda>s. s\<lparr>readyState := OPEN\<rparr>) st))"
proof (cases "ws st = Some i")
  case False
  let ?st1 = "set_socket i (\<lambda>s. s\<lparr>readyState := OPEN\<rparr>) st"
  from inv False i have "app_inv ?st1"
    by (auto simp: app_inv_def fm_inv_def set_socket_def nth_update_if)
  then show ?thesis
    unfolding ws_onopen_eq by (auto dest: app_inv_ws_send split: option.splits)
next
  case True
  let ?c = "sockets st ! i"
  let ?m = "StartSession (start_config (?c\<lparr>readyState := OPEN\<rparr>) (page st))"
  let ?s' = "?c\<lparr>readyState := OPEN, sent := sent ?c @ [?m]\<rparr>"
  have eq: "ws_onopen i (set_socket i (\<lambda>s. s\<lparr>readyState := OPEN\<rparr>) st) =
            st\<lparr>sockets := (sockets st)[i := ?s']\<rparr>"
    using True i by (simp add: ws_onopen_eq ws_send_def set_socket_def)
  from inv i have ok: "first_message_ok ?c" by (simp add: app_inv_def fm_inv_def)
  then have cv: "closure_valid ?c" by (simp add: first_message_ok_def)
  have "start_session_for ?c ?m"
    using start_config_ok [of "?c\<lparr>readyState := OPEN\<rparr>" "page st"] cv by simp
  with ok have "first_message_ok ?s'"
    by (cases "sent ?c") (simp_all add: first_message_ok_def)
  moreover have "sent ?s' \<noteq> []" by simp
  ultimately show ?thesis
    using inv unfolding eq by (auto simp: app_inv_def fm_inv_def nth_update_if)
qed

lemma app_inv_step: "app_inv st \<Longrightarrow> app_inv (app_step e st)"
proof (cases e)
  case (WsError i)
  assume "app_inv st"
  then have "app_inv (set_socket i (\<lambda>s. s\<lparr>readyState := CLOSED\<rparr>) st)"
    by (auto simp: app_inv_def fm_inv_def set_socket_def nth_update_if)
  with \<open>app_inv st\<close> WsError show ?thesis by (simp add: app_inv_simple_handlers)
next
  case (WsClose i)
  assume "app_inv st"
  then have "app_inv (set_socket i (\<lambda>s. s\<lparr>readyState := CLOSED, close_fired := True\<rparr>) st)"
    by (auto simp: app_inv_def fm_inv_def set_socket_def nth_update_if)
  with \<open>app_inv st\<close> WsClose show ?thesis by (simp add: app_inv_simple_handlers)
qed (simp_all add: app_inv_toggleConnection app_inv_onopen app_inv_handleServerMessage
       app_inv_simple_handlers)

lemma app_inv_run: "app_inv st \<Longrightarrow> app_inv (app_run evs st)"
  by (induction evs arbitrary: st) (simp_all add: app_inv_step)

lemma app_inv_initial: "app_inv (initial_app d)"
  by (simp add: app_inv_def fm_inv_def initial_app_def)

lemma js_eq_iff: "js a = js b \<longleftrightarrow> a = b"
proof -
  have "inj (of_char :: char \<Rightarrow> nat)" by (rule injI) simp
  then show ?thesis by (simp add: js_def inj_map_eq_map)
qed

lemma js_empty_iff: "js a = [] \<longleftrightarrow> a = []" "[] = js a \<longleftrightarrow> a = []"
  by (auto simp: js_def)

lemma trim_examples:
  "trim (js '' https://example.test '') = js ''https://example.test''"
  "trim (js ''key'') = js ''key''"
  "trim [] = []"
  by (simp_all add: trim_def js_def is_js_whitespace_def)

text \<open>
  Claim C5. A Connect action that passes validation creates a connecting socket that
  remembers the trimmed endpoint, the mode and the credentials of that moment; and on
  every socket, through every sequence of events, the first message transmitted is a
  \<open>start_session\<close> whose configuration holds that endpoint and exactly one credential:
  \<open>entraToken\<close> for the agent modes, \<open>apiKey\<close> otherwise.
\<close>

theorem start_session_first:
  "(credentials_entered (page st) \<longrightarrow>
      ws (connectSession None st) = Some (length (sockets st)) \<and>
      sockets (connectSession None st) = sockets st @
        [\<lparr>readyState = CONNECTING, sent = [], close_fired = False,
          cs_endpoint = trim (el_value (page st) ''endpoint''),
          cs_isAgent = is_agent_mode (page st),
          cs_apiKey = (if has_element (page st) ''apiKey''
                       then Some (trim (el_value (page st) ''apiKey'')) else None),
          cs_entraToken = (if has_element (page st) ''entraToken''
                           then Some (trim (el_value (page st) ''entraToken'')) else None)\<rparr>]) \<and>
   (\<forall>s \<in> set (sockets (app_run evs (initial_app d))). \<forall>m ms. sent s = m # ms \<longrightarrow>
      (\<exists>cfg. m = StartSession cfg \<and> cs_endpoint s \<noteq> [] \<and>
         map_of cfg ''endpoint'' = Some (CString (cs_endpoint s)) \<and>
         (if cs_isAgent s
          then (\<exists>t. t \<noteq> [] \<and> cs_entraToken s = Some t \<and>
                  map_of cfg ''entraToken'' = Some (CString t)) \<and>
               map_of cfg ''apiKey'' = None
          else (\<exists>k. k \<noteq> [] \<and> cs_apiKey s = Some k \<and>
                  map_of cfg ''apiKey'' = Some (CString k)) \<and>
               map_of cfg ''entraToken'' = None)))"
proof (intro conjI impI ballI allI)
  assume "credentials_entered (page st)"
  then show "ws (connectSession None st) = Some (length (sockets st))"
    by (auto simp: credentials_entered_def is_agent_mode_def connectSession_def Let_def
        addMessage_def setConnecting_def split: if_splits)
next
  assume "credentials_entered (page st)"
  then show "sockets (connectSession None st) = sockets st @
        [\<lparr>readyState = CONNECTING, sent = [], close_fired = False,
          cs_endpoint = trim (el_value (page st) ''endpoint''),
          cs_isAgent = is_agent_mode (page st),
          cs_apiKey = (if has_element (page st) ''apiKey''
                       then Some (trim (el_value (page st) ''apiKey'')) else None),
          cs_entraToken = (if has_element (page st) ''entraToken''
                           then Some (trim (el_value (page st) ''entraToken'')) else None)\<rparr>]"
    by (auto simp: credentials_entered_def is_agent_mode_def connectSession_def Let_def
        addMessage_def setConnecting_def split: if_splits)
next
  fix s m ms
  assume s: "s \<in> set (sockets (app_run evs (initial_app d)))" and m: "sent s = m # ms"
  have "app_inv (app_run evs (initial_app d))"
    by (rule app_inv_run) (rule app_inv_initial)
  with s have "first_message_ok s"
    by (auto simp: app_inv_def fm_inv_def in_set_conv_nth)
  with m have cv: "closure_valid s" and ss: "start_session_for s m"
    by (simp_all add: first_message_ok_def)
  from ss obtain cfg where cfg: "m = StartSession cfg" by (cases m) simp_all
  from cv ss show "\<exists>cfg. m = StartSession cfg \<and> cs_endpoint s \<noteq> [] \<and>
         map_of cfg ''endpoint'' = Some (CString (cs_endpoint s)) \<and>
         (if cs_isAgent s
          then (\<exists>t. t \<noteq> [] \<and> cs_entraToken s = Some t \<and>
                  map_of cfg ''entraToken'' = Some (CString t)) \<and>
               map_of cfg ''apiKey'' = None
          else (\<exists>k. k \<noteq> [] \<and> cs_apiKey s = Some k \<and>
                  map_of cfg ''apiKey'' = Some (CString k)) \<and>
               map_of cfg ''entraToken'' = None)"
    unfolding cfg by (auto simp: closure_valid_def split: option.splits if_splits)
qed

theorem start_session_first_witness:
  "credentials_entered sample_page \<and>
   (case sockets (app_run [ClickConnect None, WsOpen 0, SendTextMessage]
                    (initial_app sample_page)) of
      [s] \<Rightarrow> (case sent s of
                [StartSession cfg] \<Rightarrow>
                   s \<in> set (sockets (app_run [ClickConnect None, WsOpen 0, SendTextMessage]
                                      (initial_app sample_page))) \<and>
                   \<not> cs_isAgent s \<and>
                   map_of cfg ''endpoint'' = Some (CString (js ''https://example.test'')) \<and>
                   map_of cfg ''apiKey'' = Some (CString (js ''key'')) \<and>
                   map_of cfg ''entraToken'' = None \<and>
                   map_of cfg ''mode'' = Some (CString (js ''model''))
              | _ \<Rightarrow> False)
    | _ \<Rightarrow> False)"
proof -
  have a: "credentials_entered sample_page"
    by (simp add: credentials_entered_def is_agent_mode_def sample_page_def trim_examples
        js_eq_iff js_empty_iff)
  have b: "sockets (app_run [ClickConnect None, WsOpen 0, SendTextMessage]
              (initial_app sample_page)) =
           [\<lparr>readyState = OPEN,
             sent = [StartSession
                (set_property ''apiKey'' (CString (js ''key''))
                  (set_property ''endpoint'' (CString (js ''https://example.test''))
                     (gatherConfig sample_page)))],
             close_fired = False, cs_endpoint = js ''https://example.test'',
             cs_isAgent = False, cs_apiKey = Some (js ''key''), cs_entraToken = Some []\<rparr>]"
    by (simp add: toggleConnection_def connectSession_def initial_app_def sample_page_def
        trim_examples addMessage_def setConnecting_def Let_def set_socket_def ws_onopen_def
        ws_send_def sendTextMessage_def js_eq_iff js_empty_iff)
  have c: "map_of (gatherConfig sample_page) ''mode'' = Some (CString (js ''model''))"
    by (simp add: gatherConfig_def sample_page_def Let_def)
  from start_session_first [of "initial_app sample_page"
      "[ClickConnect None, WsOpen 0, SendTextMessage]" sample_page] a b c
  show ?thesis
    by (simp add: map_of_set_property gatherConfig_no_credentials)
qed

subsection \<open>Validation, errors and the number of connection attempts\<close>

lemma filter_update_le:
  "\<not> P y \<Longrightarrow> length (filter P (xs[i := y])) \<le> length (filter P xs)"
proof (induction xs arbitrary: i)
  case Nil
  then show ?case by simp
next
  case (Cons x xs)
  then show ?case by (cases i) (auto intro: le_SucI)
qed

lemma filter_update_same:
  "P y = P (xs ! i) \<Longrightarrow> length (filter P (xs[i := y])) = length (filter P xs)"
proof (induction xs arbitrary: i)
  case Nil
  then show ?case by simp
next
  case (Cons x xs)
  then show ?case by (cases i) auto
qed

lemma filter_update_dec:
  "i < length xs \<Longrightarrow> P (xs ! i) \<Longrightarrow> \<not> P y \<Longrightarrow>
   Suc (length (filter P (xs[i := y]))) = length (filter P xs)"
proof (induction xs arbitrary: i)
  case Nil
  then show ?case by simp
next
  case (Cons x xs)
  then show ?case by (cases i) auto
qed

lemma quiet_refl [simp]: "quiet st st"
  by (simp add: quiet_def)

lemma quiet_trans: "quiet a b \<Longrightarrow> quiet b c \<Longrightarrow> quiet a c"
  by (auto simp: quiet_def)

lemma quiet_flags [simp]:
  "quiet st (st'\<lparr>ws := a\<rparr>) = quiet st st'"
  "quiet st (st'\<lparr>isConnected := b\<rparr>) = quiet st st'"
  "quiet st (st'\<lparr>isConnecting := b\<rparr>) = quiet st st'"
  "quiet st (st'\<lparr>isRecording := b\<rparr>) = quiet st st'"
  "quiet st (st'\<lparr>audioChunksSent := n\<rparr>) = quiet st st'"
  "quiet st (st'\<lparr>avatarEnabled := b\<rparr>) = quiet st st'"
  "quiet st (st'\<lparr>avatarOutputMode := m\<rparr>) = quiet st st'"
  "quiet st (st'\<lparr>isSpeaking := b\<rparr>) = quiet st st'"
  "quiet st (st'\<lparr>peerConnection := b\<rparr>) = quiet st st'"
  "quiet st (st'\<lparr>lastSceneUpdate := t\<rparr>) = quiet st st'"
  "quiet st (st'\<lparr>pendingAssistantText := x\<rparr>) = quiet st st'"
  "quiet st (st'\<lparr>messages := ms\<rparr>) = quiet st st'"
  "quiet st (st'\<lparr>page := d\<rparr>) = quiet st st'"
  by (simp_all add: quiet_def)

lemma quiet_addMessage [simp]: "quiet st (addMessage r t st') = quiet st st'"
  by (simp add: addMessage_def)

lemma quiet_setConnecting [simp]: "quiet st (setConnecting b st') = quiet st st'"
  by (simp add: setConnecting_def)

lemma quiet_ws_send:
  assumes "ws_send m st = Some st'"
  shows "quiet st st'"
  using assms
  by (auto simp: ws_send_def quiet_def connecting_count_def filter_update_same
      split: option.splits if_splits ws_ready_state.splits)

lemma quiet_handleDisconnect: "quiet st (handleDisconnect st)"
  by (auto simp: handleDisconnect_def Let_def quiet_def connecting_count_def socket_close_def
      filter_update_le filter_update_same split: option.splits ws_ready_state.splits)

lemma quiet_set_socket_closed:
  "quiet st (set_socket i (\<lambda>s. s\<lparr>readyState := CLOSED\<rparr>) st)"
  "quiet st (set_socket i (\<lambda>s. s\<lparr>readyState := CLOSED, close_fired := True\<rparr>) st)"
  by (simp_all add: quiet_def set_socket_def connecting_count_def filter_update_le)

lemma quiet_disconnect: "quiet st (disconnect st)"
proof -
  have "quiet st (if ws_is_open st
        then (case ws_send StopSession st of None \<Rightarrow> st | Some st1 \<Rightarrow> st1) else st)"
    by (auto dest: quiet_ws_send split: option.splits)
  then show ?thesis
    unfolding disconnect_def by (rule quiet_trans) (rule quiet_handleDisconnect)
qed

lemma quiet_handleServerMessage: "quiet st (handleServerMessage m st)"
proof (cases m)
  case SessionClosed
  have "quiet st (addMessage System (js ''Session closed'') st)" by simp
  then show ?thesis
    unfolding SessionClosed handleServerMessage.simps
    by (rule quiet_trans) (rule quiet_handleDisconnect)
qed (simp_all add: onSessionStarted_def onSpeechStarted_def onAssistantDelta_def Let_def)

lemma quiet_ws_onclose: "quiet st (ws_onclose st)"
proof -
  have "quiet st (if isConnected st then addMessage System (js ''Disconnected'') st else st)"
    by simp
  then show ?thesis
    unfolding ws_onclose_def by (rule quiet_trans) (rule quiet_handleDisconnect)
qed

lemma quiet_simple_handlers:
  "quiet st (worklet_onmessage data st)" "quiet st (toggleMicrophone st)"
  "quiet st (sendTextMessage st)" "quiet st (throttledUpdateAvatarScene now st)"
  "quiet st (send_sdp_offer d st)" "quiet st (ws_onerror st)"
  by (auto simp: worklet_onmessage_def toggleMicrophone_def sendTextMessage_def
      throttledUpdateAvatarScene_def updateAvatarScene_def send_sdp_offer_def
      ws_onerror_def Let_def quiet_def connecting_count_def addMessage_def setConnecting_def
      dest!: quiet_ws_send split: option.splits)


lemma cnt_inv_quiet:
  assumes "cnt_inv st" "quiet st st'" "sent_of is_start_session st' = sent_of is_start_session st"
  shows "cnt_inv st'"
  using assms by (simp add: cnt_inv_def quiet_def)

lemma length_sent_of_ws_send:
  assumes "ws_send m st = Some st'"
  shows "length (sent_of P st') \<le> Suc (length (sent_of P st))"
proof (cases "P m")
  case False
  with assms show ?thesis by (simp add: sent_of_ws_send)
next
  case True
  show ?thesis
  proof (cases "st' = st")
    case True
    then show ?thesis by simp
  next
    case False
    with assms obtain j where j: "j < length (sockets st)"
      and st': "st' = st\<lparr>sockets := (sockets st)
          [j := (sockets st ! j)\<lparr>sent := sent (sockets st ! j) @ [m]\<rparr>]\<rparr>"
      by (auto simp: ws_send_def split: option.splits if_splits ws_ready_state.splits)
    let ?g = "\<lambda>s. length (filter P (sent s))"
    have "length (sent_of P st') = sum_list (map ?g (sockets st'))"
      by (simp add: sent_of_def length_concat comp_def)
    also have "\<dots> = sum_list ((map ?g (sockets st))[j := Suc (?g (sockets st ! j))])"
      using \<open>P m\<close> by (simp add: st' map_update)
    also have "\<dots> = sum_list (map ?g (sockets st)) + Suc (?g (sockets st ! j)) - ?g (sockets st ! j)"
      using j by (simp add: sum_list_update)
    also have "\<dots> = Suc (sum_list (map ?g (sockets st)))" by simp
    also have "\<dots> = Suc (length (sent_of P st))"
      by (simp add: sent_of_def length_concat comp_def)
    finally show ?thesis by simp
  qed
qed

lemma cnt_inv_onopen:
  assumes inv: "cnt_inv st" and i: "i < length (sockets st)"
    and c: "readyState (sockets st ! i) = CONNECTING"
  shows "cnt_inv (ws_onopen i (set_socket i (\<lambda>s. s\<lparr>readyState := OPEN\<rparr>) st))"
proof -
  let ?st1 = "set_socket i (\<lambda>s. s\<lparr>readyState := OPEN\<rparr>) st"
  have len: "length (sockets ?st1) = length (sockets st)"
    by (simp add: set_socket_def)
  have conn: "Suc (connecting_count (sockets ?st1)) = connecting_count (sockets st)"
    using i c by (simp add: set_socket_def connecting_count_def filter_update_dec)
  have snt: "sent_of is_start_session ?st1 = sent_of is_start_session st"
    by (rule sent_of_set_socket) simp
  show ?thesis
  proof (cases "ws_send (StartSession (start_config (sockets ?st1 ! i) (page ?st1))) ?st1")
    case None
    then have "ws_onopen i ?st1 = ?st1" by (simp add: ws_onopen_eq)
    with inv len conn snt show ?thesis by (simp add: cnt_inv_def)
  next
    case (Some st2)
    then have eq: "ws_onopen i ?st1 = st2" by (simp add: ws_onopen_eq)
    from Some have "quiet ?st1 st2" by (rule quiet_ws_send)
    moreover from Some have "length (sent_of is_start_session st2) \<le>
        Suc (length (sent_of is_start_session ?st1))"
      by (rule length_sent_of_ws_send)
    ultimately show ?thesis
      using inv len conn snt unfolding eq by (simp add: cnt_inv_def quiet_def)
  qed
qed

lemma connectSession_sockets:
  "(sockets (connectSession f st) = sockets st) \<or>
   (\<exists>c. readyState c = CONNECTING \<and> sent c = [] \<and>
        sockets (connectSession f st) = sockets st @ [c])"
  by (auto simp: connectSession_def Let_def addMessage_def setConnecting_def split: option.splits)

lemma cnt_inv_connectSession: "cnt_inv st \<Longrightarrow> cnt_inv (connectSession f st)"
  using connectSession_sockets [of f st]
  by (auto simp: cnt_inv_def sent_of_def connecting_count_def)

lemma cnt_inv_step: "cnt_inv st \<Longrightarrow> cnt_inv (app_step e st)"
proof (cases e)
  case (ClickConnect f)
  assume "cnt_inv st"
  then show ?thesis
    unfolding ClickConnect
    by (auto simp: toggleConnection_def cnt_inv_connectSession
        intro: cnt_inv_quiet [OF _ quiet_disconnect] simp: sent_of_disconnect)
next
  case (WsOpen i)
  assume "cnt_inv st"
  then show ?thesis unfolding WsOpen by (simp add: cnt_inv_onopen)
next
  case (WsMessage i m)
  assume "cnt_inv st"
  then show ?thesis
    unfolding WsMessage by (auto intro: cnt_inv_quiet [OF _ quiet_handleServerMessage])
next
  case (WsError i)
  assume inv: "cnt_inv st"
  have "cnt_inv (set_socket i (\<lambda>s. s\<lparr>readyState := CLOSED\<rparr>) st)"
    using inv by (rule cnt_inv_quiet) (simp_all add: quiet_set_socket_closed sent_of_set_socket)
  then have "cnt_inv (ws_onerror (set_socket i (\<lambda>s. s\<lparr>readyState := CLOSED\<rparr>) st))"
    by (rule cnt_inv_quiet) (simp_all add: quiet_simple_handlers)
  with inv show ?thesis unfolding WsError by simp
next
  case (WsClose i)
  assume inv: "cnt_inv st"
  have "cnt_inv (set_socket i (\<lambda>s. s\<lparr>readyState := CLOSED, close_fired := True\<rparr>) st)"
    using inv by (rule cnt_inv_quiet) (simp_all add: quiet_set_socket_closed sent_of_set_socket)
  then have "cnt_inv (ws_onclose
      (set_socket i (\<lambda>s. s\<lparr>readyState := CLOSED, close_fired := True\<rparr>) st))"
    by (rule cnt_inv_quiet) (simp_all add: quiet_ws_onclose)
  with inv show ?thesis unfolding WsClose by simp
next
  case (WorkletMessage data)
  assume inv: "cnt_inv st"
  have "sent_of is_start_session (worklet_onmessage data st) = sent_of is_start_session st"
    by (auto simp: worklet_onmessage_def Let_def sent_of_ws_send split: option.splits)
  with inv show ?thesis
    unfolding WorkletMessage by (auto intro: cnt_inv_quiet simp: quiet_simple_handlers)
next
  case ToggleMicrophone
  assume "cnt_inv st"
  then show ?thesis
    unfolding ToggleMicrophone by (auto intro: cnt_inv_quiet simp: quiet_simple_handlers)
next
  case SendTextMessage
  assume "cnt_inv st"
  then show ?thesis
    unfolding SendTextMessage
    by (auto intro: cnt_inv_quiet simp: quiet_simple_handlers sent_of_sendTextMessage)
next
  case (SceneSliderInput now)
  assume "cnt_inv st"
  then show ?thesis
    unfolding SceneSliderInput
    by (auto intro: cnt_inv_quiet simp: quiet_simple_handlers sent_of_throttled)
next
  case (SdpTimer d)
  assume "cnt_inv st"
  then show ?thesis
    unfolding SdpTimer
    by (auto intro: cnt_inv_quiet simp: quiet_simple_handlers sent_of_send_sdp_offer)
next
  case ClearChat
  assume "cnt_inv st"
  then show ?thesis unfolding ClearChat by (simp add: cnt_inv_def)
next
  case (EditPage d)
  assume "cnt_inv st"
  then show ?thesis unfolding EditPage by (simp add: cnt_inv_def)
qed

lemma cnt_inv_run: "cnt_inv st \<Longrightarrow> cnt_inv (app_run evs st)"
  by (induction evs arbitrary: st) (simp_all add: cnt_inv_step)

lemma sockets_step:
  "length (sockets (app_step e st)) \<le>
   length (sockets st) + (if is_click_connect e then 1 else 0)"
proof (cases e)
  case (ClickConnect f)
  have "length (sockets (disconnect st)) = length (sockets st)"
    using quiet_disconnect [of st] by (simp add: quiet_def)
  moreover have "length (sockets (connectSession f st)) \<le> Suc (length (sockets st))"
    using connectSession_sockets [of f st] by auto
  ultimately show ?thesis unfolding ClickConnect by (simp add: toggleConnection_def)
next
  case (WsOpen i)
  have "length (sockets (ws_onopen i st')) = length (sockets st')" for st'
    by (auto simp: ws_onopen_eq dest!: quiet_ws_send simp: quiet_def split: option.splits)
  then show ?thesis unfolding WsOpen by (simp add: set_socket_def)
next
  case (WsMessage i m)
  then show ?thesis using quiet_handleServerMessage [of st m] by (simp add: quiet_def)
next
  case (WsError i)
  then show ?thesis
    using quiet_simple_handlers(6) [of "set_socket i (\<lambda>s. s\<lparr>readyState := CLOSED\<rparr>) st"]
    by (simp add: quiet_def set_socket_def)
next
  case (WsClose i)
  then show ?thesis
    using quiet_ws_onclose [of "set_socket i (\<lambda>s. s\<lparr>readyState := CLOSED, close_fired := True\<rparr>) st"]
    by (simp add: quiet_def set_socket_def)
qed (use quiet_simple_handlers [of st] in \<open>simp_all add: quiet_def\<close>)

lemma sockets_run:
  "length (sockets (app_run evs st)) \<le> length (sockets st) + length (filter is_click_connect evs)"
proof (induction evs arbitrary: st)
  case Nil
  then show ?case by simp
next
  case (Cons e evs)
  have "length (sockets (app_run evs (app_step e st))) \<le>
        length (sockets (app_step e st)) + length (filter is_click_connect evs)"
    by (rule Cons.IH)
  with sockets_step [of e st] show ?case by (simp split: if_splits)
qed

lemma connectSession_invalid:
  assumes "\<not> credentials_entered (page st)"
  shows "\<exists>t. connectSession f st = addMessage System t st"
proof (cases "trim (el_value (page st) ''endpoint'') = []")
  case True
  then show ?thesis by (simp add: connectSession_def) blast
next
  case False
  show ?thesis
  proof (cases "is_agent_mode (page st)")
    case True
    with assms False show ?thesis
      by (simp add: credentials_entered_def is_agent_mode_def connectSession_def) blast
  next
    case False
    with assms \<open>trim (el_value (page st) ''endpoint'') \<noteq> []\<close> show ?thesis
      by (simp add: credentials_entered_def is_agent_mode_def connectSession_def) blast
  qed
qed

text \<open>
  Claim C6. Error handling only surfaces a message. When the endpoint or the credential
  of the selected mode is empty, \<open>connectSession\<close> appends one system message and changes
  nothing else, so no socket is created and nothing is sent. On \<open>session_error\<close> the handler
  appends the error message and clears the connecting flag, nothing else. There is no
  retry: over every sequence of events, sockets are created only by clicks on Connect (at
  most one per click), and the \<open>start_session\<close> messages transmitted never outnumber the
  sockets created.
\<close>

theorem connect_error_handling:
  "(\<not> credentials_entered (page st) \<longrightarrow>
      (\<exists>t. connectSession f st =
         st\<lparr>messages := messages st @
              [\<lparr>msg_role = System, msg_text = t, msg_item_id = None\<rparr>]\<rparr>)) \<and>
   handleServerMessage (SessionError err) st =
      st\<lparr>messages := messages st @
           [\<lparr>msg_role = System,
             msg_text = js ''Error: '' @ (if err = [] then js ''Unknown error'' else err),
             msg_item_id = None\<rparr>],
         isConnecting := False\<rparr> \<and>
   length (sockets (app_run evs st)) \<le>
     length (sockets st) + length (filter is_click_connect evs) \<and>
   length (sent_of is_start_session (app_run evs (initial_app d))) \<le>
     length (sockets (app_run evs (initial_app d)))"
proof -
  have 1: "\<not> credentials_entered (page st) \<longrightarrow>
      (\<exists>t. connectSession f st =
         st\<lparr>messages := messages st @
              [\<lparr>msg_role = System, msg_text = t, msg_item_id = None\<rparr>]\<rparr>)"
    using connectSession_invalid [of st f] by (simp add: addMessage_def)
  have 2: "handleServerMessage (SessionError err) st =
      st\<lparr>messages := messages st @
           [\<lparr>msg_role = System,
             msg_text = js ''Error: '' @ (if err = [] then js ''Unknown error'' else err),
             msg_item_id = None\<rparr>],
         isConnecting := False\<rparr>"
    by (simp add: addMessage_def setConnecting_def)
  have "cnt_inv (initial_app d)"
    by (simp add: cnt_inv_def initial_app_def sent_of_def connecting_count_def)
  then have "cnt_inv (app_run evs (initial_app d))" by (rule cnt_inv_run)
  then have 3: "length (sent_of is_start_session (app_run evs (initial_app d))) \<le>
     length (sockets (app_run evs (initial_app d)))"
    by (simp add: cnt_inv_def)
  from 1 2 3 sockets_run [of evs st] show ?thesis by blast
qed

theorem connect_error_handling_witness:
  "\<not> credentials_entered
       \<lparr>has_element = (\<lambda>e. False), el_value = (\<lambda>e. []), el_checked = (\<lambda>e. False)\<rparr> \<and>
   messages (connectSession None (initial_app
       \<lparr>has_element = (\<lambda>e. False), el_value = (\<lambda>e. []), el_checked = (\<lambda>e. False)\<rparr>)) =
     [\<lparr>msg_role = System, msg_text = js ''Please enter Azure AI Services Endpoint'',
       msg_item_id = None\<rparr>] \<and>
   sockets (connectSession None (initial_app
       \<lparr>has_element = (\<lambda>e. False), el_value = (\<lambda>e. []), el_checked = (\<lambda>e. False)\<rparr>)) = [] \<and>
   length (sockets (app_run
       [ClickConnect None, WsOpen 0, WsMessage 0 (SessionError []), WsOpen 0,
        WsMessage 0 (SessionError [])] (initial_app sample_page))) \<le> 1 \<and>
   length (sent_of is_start_session (app_run
       [ClickConnect None, WsOpen 0, WsMessage 0 (SessionError []), WsOpen 0,
        WsMessage 0 (SessionError [])] (initial_app sample_page))) \<le> 1"
proof -
  let ?p = "\<lparr>has_element = (\<lambda>e. False), el_value = (\<lambda>e. []), el_checked = (\<lambda>e. False)\<rparr>"
  let ?evs = "[ClickConnect None, WsOpen 0, WsMessage 0 (SessionError []), WsOpen 0,
              WsMessage 0 (SessionError [])]"
  have a: "\<not> credentials_entered ?p"
    by (simp add: credentials_entered_def trim_examples)
  have p: "page (initial_app ?p) = ?p"
    by (simp add: initial_app_def)
  have b: "connectSession None (initial_app ?p) =
        addMessage System (js ''Please enter Azure AI Services Endpoint'') (initial_app ?p)"
    by (simp add: connectSession_def p trim_examples)
  have c: "length (sockets (initial_app sample_page)) = 0"
    by (simp add: initial_app_def)
  have d: "length (filter is_click_connect ?evs) = 1" by simp
  from connect_error_handling [of "initial_app sample_page" None "[]" ?evs sample_page]
  have "length (sockets (app_run ?evs (initial_app sample_page))) \<le> 1 \<and>
        length (sent_of is_start_session (app_run ?evs (initial_app sample_page))) \<le> 1"
    unfolding c d by linarith
  moreover
  from connect_error_handling [of "initial_app ?p" None "[]" "[]" sample_page]
  have "\<not> credentials_entered (page (initial_app ?p)) \<longrightarrow>
      (\<exists>t. connectSession None (initial_app ?p) =
         (initial_app ?p)\<lparr>messages := messages (initial_app ?p) @
              [\<lparr>msg_role = System, msg_text = t, msg_item_id = None\<rparr>]\<rparr>)"
    by (rule conjunct1)
  with a p have "\<exists>t. connectSession None (initial_app ?p) =
         (initial_app ?p)\<lparr>messages := messages (initial_app ?p) @
              [\<lparr>msg_role = System, msg_text = t, msg_item_id = None\<rparr>]\<rparr>"
    by simp
  then have "sockets (connectSession None (initial_app ?p)) = []"
    by (auto simp: initial_app_def)
  ultimately show ?thesis
    using a unfolding b by (simp add: addMessage_def initial_app_def)
qed

subsection \<open>Base64\<close>

lemma b64_cases:
  assumes "(v::nat) < 64"
  obtains "v < 26" | "26 \<le> v" "v < 52" | "52 \<le> v" "v < 62" | "v = 62" | "v = 63"
  using assms by linarith

lemma b64_value_char: "v < 64 \<Longrightarrow> b64_value (b64_char v) = Some v"
  by (erule b64_cases) (simp_all add: b64_value_def b64_char_def, (linarith+)?)

lemma b64_char_plain: "v < 64 \<Longrightarrow> b64_char v \<noteq> 61 \<and> \<not> is_ascii_whitespace (b64_char v)"
  by (erule b64_cases) (simp_all add: b64_char_def is_ascii_whitespace_def, (linarith+)?)

lemma byte_div_bounds:
  assumes "(x::nat) < 256"
  shows "x div 4 < 64" "x div 16 < 16" "x div 64 < 4"
  using assms less_mult_imp_div_less [of x 64 4] less_mult_imp_div_less [of x 16 16]
    less_mult_imp_div_less [of x 4 64]
  by simp_all

lemma sextet_bounds:
  assumes "(a::nat) < 256" "(b::nat) < 256"
  shows "a div 4 < 64" "(a mod 4) * 16 + b div 16 < 64" "(a mod 16) * 4 + b div 64 < 64"
    "a mod 64 < 64" "(a mod 16) * 4 < 64" "(a mod 4) * 16 < 64"
proof -
  have m: "a mod 4 < 4" "a mod 16 < 16" by simp_all
  from assms byte_div_bounds [of b] have d: "b div 16 < 16" "b div 64 < 4" by simp_all
  from assms show "a div 4 < 64" by (simp add: byte_div_bounds)
  from m d show "(a mod 4) * 16 + b div 16 < 64" by linarith
  from m d show "(a mod 16) * 4 + b div 64 < 64" by linarith
  show "a mod 64 < 64" by simp
  from m show "(a mod 16) * 4 < 64" by linarith
  from m show "(a mod 4) * 16 < 64" by linarith
qed

lemma b64_sextets_bound:
  "\<forall>x \<in> set bs. x < 256 \<Longrightarrow> \<forall>v \<in> set (b64_sextets bs). v < 64"
proof (induction bs rule: b64_sextets.induct)
  case (1 a b c rest)
  then have "a < 256" "b < 256" "c < 256" by simp_all
  with 1 show ?case by (simp add: sextet_bounds)
next
  case (2 a b)
  then have "a < 256" "b < 256" by simp_all
  then show ?case by (simp add: sextet_bounds)
next
  case (3 a)
  then have "a < 256" by simp
  then show ?case by (simp add: sextet_bounds)
qed simp

lemma regroup:
  assumes "(a::nat) < 256" "(b::nat) < 256" "(c::nat) < 256"
  shows "a div 4 * 4 + ((a mod 4) * 16 + b div 16) div 16 = a"
    "(((a mod 4) * 16 + b div 16) mod 16) * 16 + ((b mod 16) * 4 + c div 64) div 4 = b"
    "(((b mod 16) * 4 + c div 64) mod 4) * 64 + c mod 64 = c"
    "(((a mod 4) * 16 + b div 16) mod 16) * 16 + ((b mod 16) * 4) div 4 = b"
    "a div 4 * 4 + ((a mod 4) * 16) div 16 = a"
proof -
  from assms have d: "b div 16 < 16" "c div 64 < 4" by (simp_all add: byte_div_bounds)
  from d(1) have 1: "((a mod 4) * 16 + b div 16) div 16 = a mod 4" by simp
  from d(1) have 2: "((a mod 4) * 16 + b div 16) mod 16 = b div 16" by simp
  from d(2) have 3: "((b mod 16) * 4 + c div 64) div 4 = b mod 16" by simp
  from d(2) have 4: "((b mod 16) * 4 + c div 64) mod 4 = c div 64" by simp
  show "a div 4 * 4 + ((a mod 4) * 16 + b div 16) div 16 = a" unfolding 1 by simp
  show "(((a mod 4) * 16 + b div 16) mod 16) * 16 + ((b mod 16) * 4 + c div 64) div 4 = b"
    unfolding 2 3 by simp
  show "(((b mod 16) * 4 + c div 64) mod 4) * 64 + c mod 64 = c" unfolding 4 by simp
  show "(((a mod 4) * 16 + b div 16) mod 16) * 16 + ((b mod 16) * 4) div 4 = b"
    unfolding 2 by simp
  show "a div 4 * 4 + ((a mod 4) * 16) div 16 = a" by simp
qed

lemma b64_decode_sextets:
  "\<forall>x \<in> set bs. x < 256 \<Longrightarrow> b64_decode (b64_sextets bs) = bs"
proof (induction bs rule: b64_sextets.induct)
  case (1 a b c rest)
  then have "a < 256" "b < 256" "c < 256" by simp_all
  with 1 show ?case by (simp add: regroup)
next
  case (2 a b)
  then have "a < 256" "b < 256" by simp_all
  then show ?case by (simp add: regroup)
next
  case (3 a)
  then show ?case by (simp add: regroup)
qed simp

lemma b64_values_chars:
  "\<forall>v \<in> set vs. v < 64 \<Longrightarrow> b64_values (map b64_char vs) = Some vs"
  by (induction vs) (simp_all add: b64_value_char)

lemma length_b64_encode: "length (b64_encode bs) mod 4 = 0"
  by (induction bs rule: b64_encode.induct) simp_all

lemma length_b64_sextets: "length (b64_sextets bs) mod 4 \<noteq> Suc 0"
  by (induction bs rule: b64_sextets.induct) simp_all

lemma pad_not_whitespace: "\<not> is_ascii_whitespace 61"
  by (simp add: is_ascii_whitespace_def)

lemma b64_encode_no_whitespace:
  "\<forall>x \<in> set bs. x < 256 \<Longrightarrow>
   filter (\<lambda>c. \<not> is_ascii_whitespace c) (b64_encode bs) = b64_encode bs"
proof (induction bs rule: b64_encode.induct)
  case (1 a b c rest)
  then have "a < 256" "b < 256" "c < 256" by simp_all
  with 1 show ?case by (simp add: b64_char_plain sextet_bounds)
next
  case (2 a b)
  then have "a < 256" "b < 256" by simp_all
  then show ?case by (simp add: b64_char_plain sextet_bounds pad_not_whitespace)
next
  case (3 a)
  then have "a < 256" by simp
  then show ?case by (simp add: b64_char_plain sextet_bounds pad_not_whitespace)
qed simp

lemma strip_padding_append:
  assumes "length p mod 4 = 0" "2 \<le> length q"
  shows "strip_padding (p @ q) = p @ strip_padding q"
proof -
  from assms(2) have q: "q \<noteq> []" "butlast q \<noteq> []"
    by (cases q; cases "tl q"; simp)+
  have "length (p @ q) mod 4 = length q mod 4"
    using assms(1) by (simp add: mod_add_left_eq [symmetric])
  with q show ?thesis
    by (simp add: strip_padding_def butlast_append)
qed

lemma strip_padding_encode:
  "\<forall>x \<in> set bs. x < 256 \<Longrightarrow> strip_padding (b64_encode bs) = map b64_char (b64_sextets bs)"
proof (induction bs rule: b64_encode.induct)
  case (1 a b c rest)
  then have "a < 256" "b < 256" "c < 256" by simp_all
  then have bound: "c mod 64 < 64" by simp
  let ?p = "[b64_char (a div 4), b64_char ((a mod 4) * 16 + b div 16),
             b64_char ((b mod 16) * 4 + c div 64), b64_char (c mod 64)]"
  show ?case
  proof (cases rest)
    case Nil
    with bound show ?thesis by (simp add: strip_padding_def b64_char_plain)
  next
    case (Cons r rs)
    then have "2 \<le> length (b64_encode rest)"
      by (cases rs; cases "tl rs"; simp)
    then have "strip_padding (?p @ b64_encode rest) = ?p @ strip_padding (b64_encode rest)"
      by (intro strip_padding_append) simp_all
    with 1 show ?thesis by simp
  qed
next
  case (2 a b)
  then have "b < 256" by simp
  then have "(b mod 16) * 4 < 64" by (simp add: sextet_bounds)
  then show ?case by (simp add: strip_padding_def b64_char_plain)
next
  case (3 a)
  then have "(a mod 4) * 16 < 64" by (simp add: sextet_bounds)
  then show ?case by (simp add: strip_padding_def b64_char_plain)
qed (simp add: strip_padding_def)

lemma atob_b64_encode:
  assumes "\<forall>x \<in> set bs. x < 256"
  shows "atob (b64_encode bs) = Some bs"
  using assms
  by (simp add: atob_def b64_encode_no_whitespace strip_padding_encode length_b64_sextets
      b64_values_chars b64_sextets_bound b64_decode_sextets)

lemma atob_btoa:
  assumes "btoa s = Some e"
  shows "atob e = Some s"
proof -
  from assms have "\<forall>x \<in> set s. x < 256" and "e = b64_encode s"
    by (auto simp: btoa_def list_ex_iff not_less split: if_splits) 
  then show ?thesis by (simp add: atob_b64_encode)
qed

text \<open>
  Claim C10. \<open>base64ToArrayBuffer\<close> is a left inverse of \<open>arrayBufferToBase64\<close>: for every
  byte buffer the encoding succeeds, and decoding it returns a buffer with exactly the
  same bytes (hence the same length).
\<close>

theorem base64_roundtrip:
  "\<exists>base64. arrayBufferToBase64 b = Some base64 \<and> base64ToArrayBuffer base64 = Some b"
proof -
  have small: "\<forall>x \<in> set (map unat b). x < 256"
  proof
    fix x assume "x \<in> set (map unat b)"
    then obtain w :: "8 word" where "x = unat w" by auto
    moreover have "unat w < 2 ^ LENGTH(8)" by (rule unsigned_less)
    ultimately show "x < 256" by simp
  qed
  then have "btoa (map unat b) = Some (b64_encode (map unat b))"
    by (auto simp: btoa_def list_ex_iff)
  moreover from small have "atob (b64_encode (map unat b)) = Some (map unat b)"
    by (rule atob_b64_encode)
  ultimately show ?thesis
    by (simp add: arrayBufferToBase64_def base64ToArrayBuffer_def comp_def)
qed

theorem base64_roundtrip_witness:
  "arrayBufferToBase64 [1, 2, 3, 255] = Some (js ''AQID/w=='') \<and>
   base64ToArrayBuffer (js ''AQID/w=='') = Some [1, 2, 3, 255]"
proof -
  have "arrayBufferToBase64 [1, 2, 3, 255] = Some (js ''AQID/w=='')"
    by (simp add: arrayBufferToBase64_def btoa_def b64_char_def js_def)
  with base64_roundtrip [of "[1, 2, 3, 255]"] show ?thesis by simp
qed

subsection \<open>Avatar SDP exchange\<close>

lemma hex_value_char: "d < 16 \<Longrightarrow> hex_value (hex_char d) = Some d"
  by (cases "d < 10") (simp_all add: hex_value_def hex_char_def)

lemma hex_digits:
  assumes "(c::nat) < 65536"
  shows "(c div 4096 mod 16) * 4096 + (c div 256 mod 16) * 256 + (c div 16 mod 16) * 16 + c mod 16 = c"
    and "c div 4096 * 4096 + (c div 256 mod 16) * 256 + (c div 16 mod 16) * 16 + c mod 16 = c"
proof -
  have 1: "c mod 256 = 16 * (c div 16 mod 16) + c mod 16"
    using mod_mult2_eq [of c 16 16] by simp
  have 2: "c mod 4096 = 256 * (c div 256 mod 16) + c mod 256"
    using mod_mult2_eq [of c 256 16] by simp
  have 3: "c mod 65536 = 4096 * (c div 4096 mod 16) + c mod 4096"
    using mod_mult2_eq [of c 4096 16] by simp
  from assms have 4: "c mod 65536 = c" by simp
  from 1 2 3 4
  show a: "(c div 4096 mod 16) * 4096 + (c div 256 mod 16) * 256 + (c div 16 mod 16) * 16 + c mod 16 = c"
    by simp
  from assms have "c div 4096 < 16"
    using less_mult_imp_div_less [of c 16 4096] by simp
  then have "c div 4096 mod 16 = c div 4096" by (rule mod_less)
  with a show "c div 4096 * 4096 + (c div 256 mod 16) * 256 + (c div 16 mod 16) * 16 + c mod 16 = c"
    by simp
qed

lemma hex4_escape:
  assumes "c < 65536"
  shows "hex4 (hex_char (c div 4096 mod 16)) (hex_char (c div 256 mod 16))
           (hex_char (c div 16 mod 16)) (hex_char (c mod 16)) = Some c"
  using hex_digits [OF assms] by (simp add: hex4_def hex_value_char)

lemma parse_unicode_escape:
  assumes "c < 65536"
  shows "parse_string_body (unicode_escape c @ r) = cons_result c (parse_string_body r)"
  using hex4_escape [OF assms] by (simp add: unicode_escape_def)

lemma parse_literal:
  assumes "c \<noteq> 34" "c \<noteq> 92" "\<not> c < 32"
  shows "parse_string_body (c # r) = cons_result c (parse_string_body r)"
  using assms by simp

lemma parse_simple_escape:
  assumes "simple_escape e = Some v" "e \<noteq> 117"
  shows "parse_string_body (92 # e # r) = cons_result v (parse_string_body r)"
  using assms by simp

lemma parse_quote_chars:
  "parse_string_body (quote_chars s @ 34 # rest) = Some (s, rest)"
proof (induction s rule: quote_chars.induct)
  case 1
  show ?case by simp
next
  case (2 c cs)
  note IH = 2
  have named:
    "parse_string_body (92 # e # quote_chars cs @ 34 # rest) = Some (v # cs, rest)"
    if "simple_escape e = Some v" "e \<noteq> 117" "parse_string_body (quote_chars cs @ 34 # rest) = Some (cs, rest)"
    for e v
    using that by (simp add: cons_result_def)
  consider (b) "c = 8" | (t) "c = 9" | (n) "c = 10" | (f) "c = 12" | (r) "c = 13"
    | (q) "c = 34" | (bs) "c = 92"
    | (ctl) "c < 32" "c \<notin> {8, 9, 10, 12, 13}"
    | (hi) "is_high_surrogate c"
    | (lo) "is_low_surrogate c"
    | (lit) "\<not> c < 32" "c \<noteq> 34" "c \<noteq> 92" "\<not> is_high_surrogate c" "\<not> is_low_surrogate c"
    by (cases "c < 32") auto
  then show ?case
  proof cases
    case b
    with IH(1) show ?thesis by (simp add: simple_escape_def cons_result_def)
  next
    case t
    with IH(2) show ?thesis by (simp add: simple_escape_def cons_result_def)
  next
    case n
    with IH(3) show ?thesis by (simp add: simple_escape_def cons_result_def)
  next
    case f
    with IH(4) show ?thesis by (simp add: simple_escape_def cons_result_def)
  next
    case r
    with IH(5) show ?thesis by (simp add: simple_escape_def cons_result_def)
  next
    case q
    with IH(6) show ?thesis by (simp add: simple_escape_def cons_result_def)
  next
    case bs
    with IH(7) show ?thesis by (simp add: simple_escape_def cons_result_def)
  next
    case ctl
    then have c: "c < 65536" by simp
    from ctl have ne: "c \<noteq> 8" "c \<noteq> 9" "c \<noteq> 10" "c \<noteq> 12" "c \<noteq> 13" "c \<noteq> 34" "c \<noteq> 92"
      by auto
    from IH(8) [OF ne ctl(1)] ne ctl(1) show ?thesis
      by (simp add: parse_unicode_escape [OF c] cons_result_def del: parse_string_body.simps)
  next
    case hi
    then have c: "c < 65536" and ge: "\<not> c < 32"
      and ne: "c \<noteq> 8" "c \<noteq> 9" "c \<noteq> 10" "c \<noteq> 12" "c \<noteq> 13" "c \<noteq> 34" "c \<noteq> 92"
      by (simp_all add: is_high_surrogate_def)
    show ?thesis
    proof (cases cs)
      case Nil
      with hi ne ge show ?thesis
        using parse_unicode_escape [OF c, of "34 # rest"]
        by (simp add: cons_result_def del: parse_string_body.simps) simp
    next
      case (Cons d ds)
      show ?thesis
      proof (cases "is_low_surrogate d")
        case True
        then have d: "d \<noteq> 34" "d \<noteq> 92" "\<not> d < 32" by (simp_all add: is_low_surrogate_def)
        from IH(9) [OF ne ge hi Cons True]
        have "parse_string_body (quote_chars ds @ 34 # rest) = Some (ds, rest)" .
        with hi ne ge Cons True d show ?thesis
          by (simp add: cons_result_def)
      next
        case False
        from IH(10) [OF ne ge hi Cons False]
        have "parse_string_body (quote_chars cs @ 34 # rest) = Some (cs, rest)" .
        with hi ne ge Cons False show ?thesis
          using parse_unicode_escape [OF c, of "quote_chars cs @ 34 # rest"]
          by (simp add: cons_result_def del: parse_string_body.simps)
      qed
    qed
  next
    case lo
    then have c: "c < 65536" and ge: "\<not> c < 32" and nh: "\<not> is_high_surrogate c"
      and ne: "c \<noteq> 8" "c \<noteq> 9" "c \<noteq> 10" "c \<noteq> 12" "c \<noteq> 13" "c \<noteq> 34" "c \<noteq> 92"
      by (simp_all add: is_low_surrogate_def is_high_surrogate_def)
    from IH(11) [OF ne ge nh lo]
    have "parse_string_body (quote_chars cs @ 34 # rest) = Some (cs, rest)" .
    with lo ne ge nh show ?thesis
      using parse_unicode_escape [OF c, of "quote_chars cs @ 34 # rest"]
      by (simp add: cons_result_def del: parse_string_body.simps)
  next
    case lit
    then have ne: "c \<noteq> 8" "c \<noteq> 9" "c \<noteq> 10" "c \<noteq> 12" "c \<noteq> 13" by auto
    from IH(12) [OF ne lit(2,3,1,4,5)]
    have "parse_string_body (quote_chars cs @ 34 # rest) = Some (cs, rest)" .
    with lit ne show ?thesis by (simp add: cons_result_def)
  qed
qed


lemma skip_ws_token:
  "\<not> is_json_whitespace c \<Longrightarrow> skip_ws (c # r) = c # r"
  "skip_ws [] = []"
  by (simp_all add: skip_ws_def)

lemma tokens_not_ws:
  "\<not> is_json_whitespace 34" "\<not> is_json_whitespace 58" "\<not> is_json_whitespace 44"
  "\<not> is_json_whitespace 123" "\<not> is_json_whitespace 125"
  by (simp_all add: is_json_whitespace_def)

lemma parse_member_quoted:
  "parse_member (34 # quote_chars k @ 34 # 58 # 34 # quote_chars v @ 34 # rest) =
   Some ((k, v), rest)"
  by (simp add: parse_member_def parse_quote_chars skip_ws_token tokens_not_ws
      del: parse_string_body.simps)

lemma parse_members_two:
  "parse_members (Suc (Suc n))
     (34 # quote_chars k1 @ 34 # 58 # 34 # quote_chars v1 @ 34 # 44 #
      34 # quote_chars k2 @ 34 # 58 # 34 # quote_chars v2 @ 34 # 125 # rest) =
   Some ([(k1, v1), (k2, v2)], rest)"
  by (simp add: parse_member_quoted skip_ws_token tokens_not_ws)

lemma quote_chars_names:
  "quote_chars (js ''type'') = js ''type''" "quote_chars (js ''sdp'') = js ''sdp''"
  by (simp_all add: js_def is_high_surrogate_def is_low_surrogate_def)

lemma stringify_shape:
  "json_stringify_description d =
     123 # 34 # quote_chars (js ''type'') @ 34 # 58 #
     34 # quote_chars (sdp_type_string (sd_type d)) @ 34 # 44 #
     34 # quote_chars (js ''sdp'') @ 34 # 58 # 34 # quote_chars (sd_sdp d) @ 34 # 125 # []"
  unfolding quote_chars_names
  by (simp add: json_stringify_description_def quote_json_string_def js_def)

lemma json_parse_stringify:
  "json_parse_string_object (json_stringify_description d) =
   Some [(js ''type'', sdp_type_string (sd_type d)), (js ''sdp'', sd_sdp d)]"
proof -
  let ?s1 = "34 # quote_chars (js ''type'') @ 34 # 58 #
     34 # quote_chars (sdp_type_string (sd_type d)) @ 34 # 44 #
     34 # quote_chars (js ''sdp'') @ 34 # 58 # 34 # quote_chars (sd_sdp d) @ 34 # 125 # []"
  have "2 \<le> length ?s1" by simp
  then have "length ?s1 = Suc (Suc (length ?s1 - 2))" by linarith
  then obtain n where n: "length ?s1 = Suc (Suc n)" ..
  have "parse_members (length ?s1) ?s1 =
        Some ([(js ''type'', sdp_type_string (sd_type d)), (js ''sdp'', sd_sdp d)], [])"
    unfolding n by (rule parse_members_two)
  then show ?thesis
    unfolding stringify_shape json_parse_string_object_def
    by (simp add: skip_ws_token tokens_not_ws del: parse_members.simps)
qed

lemma sdp_type_roundtrip: "sdp_type_of_string (sdp_type_string ty) = Some ty"
  by (cases ty) (simp_all add: sdp_type_of_string_def js_eq_iff)

lemma decode_stringify:
  assumes "atob e = Some (json_stringify_description d)"
  shows "decode_description e = Some d"
  using assms
  by (simp add: decode_description_def json_parse_stringify get_member_def js_eq_iff
      sdp_type_roundtrip)

lemma hex_char_latin1: "v < 16 \<Longrightarrow> hex_char v \<le> 255"
  by (simp add: hex_char_def)

lemma unicode_escape_latin1: "\<forall>x \<in> set (unicode_escape c). x \<le> 255"
  by (simp add: unicode_escape_def hex_char_latin1)

lemma quote_chars_suffix:
  assumes "\<not> (is_high_surrogate c \<and> (\<exists>d ds. cs = d # ds \<and> is_low_surrogate d))"
  shows "\<exists>p. quote_chars (c # cs) = p @ quote_chars cs \<and>
             (p = [c] \<or> (\<forall>x \<in> set p. x \<le> 255))"
proof -
  consider (b) "c = 8" | (t) "c = 9" | (n) "c = 10" | (f) "c = 12" | (r) "c = 13"
    | (q) "c = 34" | (bs) "c = 92"
    | (ctl) "c < 32" "c \<notin> {8, 9, 10, 12, 13}"
    | (hi) "is_high_surrogate c"
    | (lo) "is_low_surrogate c" "\<not> is_high_surrogate c"
    | (lit) "\<not> c < 32" "c \<noteq> 34" "c \<noteq> 92" "\<not> is_high_surrogate c" "\<not> is_low_surrogate c"
    by (cases "c < 32") auto
  then show ?thesis
  proof cases
    case b
    then have "quote_chars (c # cs) = [92, 98] @ quote_chars cs" by simp
    then show ?thesis by (intro exI [of _ "[92, 98]"]) simp
  next
    case t
    then have "quote_chars (c # cs) = [92, 116] @ quote_chars cs" by simp
    then show ?thesis by (intro exI [of _ "[92, 116]"]) simp
  next
    case n
    then have "quote_chars (c # cs) = [92, 110] @ quote_chars cs" by simp
    then show ?thesis by (intro exI [of _ "[92, 110]"]) simp
  next
    case f
    then have "quote_chars (c # cs) = [92, 102] @ quote_chars cs" by simp
    then show ?thesis by (intro exI [of _ "[92, 102]"]) simp
  next
    case r
    then have "quote_chars (c # cs) = [92, 114] @ quote_chars cs" by simp
    then show ?thesis by (intro exI [of _ "[92, 114]"]) simp
  next
    case q
    then have "quote_chars (c # cs) = [92, 34] @ quote_chars cs" by simp
    then show ?thesis by (intro exI [of _ "[92, 34]"]) simp
  next
    case bs
    then have "quote_chars (c # cs) = [92, 92] @ quote_chars cs" by simp
    then show ?thesis by (intro exI [of _ "[92, 92]"]) simp
  next
    case ctl
    then have "quote_chars (c # cs) = unicode_escape c @ quote_chars cs" by auto
    then show ?thesis
      by (intro exI [of _ "unicode_escape c"]) (simp add: unicode_escape_latin1)
  next
    case hi
    then have ne: "c \<noteq> 8" "c \<noteq> 9" "c \<noteq> 10" "c \<noteq> 12" "c \<noteq> 13" "c \<noteq> 34" "c \<noteq> 92"
      "\<not> c < 32"
      by (simp_all add: is_high_surrogate_def)
    from assms hi have "quote_chars (c # cs) = unicode_escape c @ quote_chars cs"
      using ne by (cases cs) simp_all
    then show ?thesis
      by (intro exI [of _ "unicode_escape c"]) (simp add: unicode_escape_latin1)
  next
    case lo
    then have ne: "c \<noteq> 8" "c \<noteq> 9" "c \<noteq> 10" "c \<noteq> 12" "c \<noteq> 13" "c \<noteq> 34" "c \<noteq> 92"
      "\<not> c < 32"
      by (simp_all add: is_low_surrogate_def)
    from lo ne have "quote_chars (c # cs) = unicode_escape c @ quote_chars cs" by simp
    then show ?thesis
      by (intro exI [of _ "unicode_escape c"]) (simp add: unicode_escape_latin1)
  next
    case lit
    then have ne: "c \<noteq> 8" "c \<noteq> 9" "c \<noteq> 10" "c \<noteq> 12" "c \<noteq> 13" by auto
    from lit ne have "quote_chars (c # cs) = [c] @ quote_chars cs" by simp
    then show ?thesis by (intro exI [of _ "[c]"]) simp
  qed
qed

lemma quote_chars_pair:
  assumes "is_high_surrogate c" "is_low_surrogate d"
  shows "quote_chars (c # d # ds) = c # d # quote_chars ds"
proof -
  from assms(1) have "c \<noteq> 8" "c \<noteq> 9" "c \<noteq> 10" "c \<noteq> 12" "c \<noteq> 13" "c \<noteq> 34" "c \<noteq> 92"
    "\<not> c < 32"
    by (simp_all add: is_high_surrogate_def)
  with assms show ?thesis by simp
qed

lemma quote_chars_latin1:
  "\<forall>c \<in> set s. c \<le> 255 \<Longrightarrow> \<forall>c \<in> set (quote_chars s). c \<le> 255"
proof (induction s)
  case Nil
  show ?case by simp
next
  case (Cons c cs)
  then have c: "c \<le> 255" and IH: "\<forall>x \<in> set (quote_chars cs). x \<le> 255" by simp_all
  from c have "\<not> is_high_surrogate c" by (simp add: is_high_surrogate_def)
  then have "\<not> (is_high_surrogate c \<and> (\<exists>d ds. cs = d # ds \<and> is_low_surrogate d))" by simp
  from quote_chars_suffix [OF this] obtain p
    where p: "quote_chars (c # cs) = p @ quote_chars cs"
      and "p = [c] \<or> (\<forall>x \<in> set p. x \<le> 255)" by blast
  with c have "\<forall>x \<in> set p. x \<le> 255" by auto
  with IH show ?case unfolding p by auto
qed

lemma sdp_type_string_latin1: "\<forall>c \<in> set (sdp_type_string ty). c \<le> 255"
  by (cases ty) (simp_all add: js_def)

lemma stringify_latin1:
  assumes "\<forall>c \<in> set (sd_sdp d). c \<le> 255"
  shows "\<forall>c \<in> set (json_stringify_description d). c \<le> 255"
  using quote_chars_latin1 [OF assms] quote_chars_latin1 [OF sdp_type_string_latin1 [of "sd_type d"]]
  unfolding stringify_shape quote_chars_names by (auto simp: js_def)

lemma quote_chars_keeps:
  "c \<in> set s \<Longrightarrow> 255 < c \<Longrightarrow> \<not> is_high_surrogate c \<Longrightarrow> \<not> is_low_surrogate c \<Longrightarrow>
   c \<in> set (quote_chars s)"
proof (induction "length s" arbitrary: s rule: less_induct)
  case less
  from less.prems(1) obtain x xs where s: "s = x # xs" by (cases s) auto
  show ?case
  proof (cases "is_high_surrogate x \<and> (\<exists>d ds. xs = d # ds \<and> is_low_surrogate d)")
    case True
    then obtain d ds where xs: "xs = d # ds" and hi: "is_high_surrogate x"
      and lo: "is_low_surrogate d" by blast
    from less.prems hi lo have "c \<noteq> x" "c \<noteq> d" by auto
    with less.prems(1) have "c \<in> set ds" by (simp add: s xs)
    then have "c \<in> set (quote_chars ds)"
      using less.prems(2-4) by (intro less.hyps) (simp_all add: s xs)
    then show ?thesis by (simp only: s xs quote_chars_pair [OF hi lo]) simp
  next
    case False
    from quote_chars_suffix [OF False] obtain p
      where p: "quote_chars (x # xs) = p @ quote_chars xs"
        and alt: "p = [x] \<or> (\<forall>y \<in> set p. y \<le> 255)" by blast
    show ?thesis
    proof (cases "c = x")
      case True
      with less.prems(2-4) have "quote_chars (x # xs) = x # quote_chars xs" by simp
      with True show ?thesis by (simp only: s) simp
    next
      case False
      with less.prems(1) have "c \<in> set xs" by (simp add: s)
      then have "c \<in> set (quote_chars xs)"
        using less.prems(2-4) by (intro less.hyps) (simp_all add: s)
      then show ?thesis by (simp only: s p) simp
    qed
  qed
qed

text \<open>
  Claim C2, as amended. The encoding of the offer and the decoding of the answer are
  inverse wherever the encoding exists: whenever \<open>btoa(JSON.stringify(d))\<close> returns,
  \<open>JSON.parse(atob(.))\<close> of the result is \<open>d\<close> again; it returns for every description whose
  \<open>sdp\<close> has only code units up to 0xFF, so for those the round trip yields \<open>d\<close>; and for a
  description whose \<open>sdp\<close> holds a code unit above 0xFF that is not a surrogate, \<open>btoa\<close> throws
  and there is no encoding. When there is no encoding, the step of \<open>setupWebRTC\<close> that sends
  the offer only appends the system message \<open>WebRTC setup failed\<close>: nothing is sent and no
  other state changes.
\<close>

theorem sdp_exchange_roundtrip:
  "(encode_description d = Some e \<longrightarrow> decode_description e = Some d) \<and>
   ((\<forall>c \<in> set (sd_sdp d). c \<le> 255) \<longrightarrow> sdp_roundtrip d = Some d) \<and>
   ((\<exists>c \<in> set (sd_sdp d). 255 < c \<and> \<not> is_high_surrogate c \<and> \<not> is_low_surrogate c) \<longrightarrow>
      encode_description d = None) \<and>
   (encode_description d = None \<longrightarrow>
      send_sdp_offer d st = addMessage System (js ''WebRTC setup failed'') st \<and>
      sockets (send_sdp_offer d st) = sockets st \<and>
      messages (send_sdp_offer d st) =
        messages st @
          [\<lparr>msg_role = System, msg_text = js ''WebRTC setup failed'', msg_item_id = None\<rparr>])"
proof (intro conjI impI)
  assume "encode_description d = None"
  then show "send_sdp_offer d st = addMessage System (js ''WebRTC setup failed'') st"
    by (simp add: send_sdp_offer_def)
next
  assume "encode_description d = None"
  then show "sockets (send_sdp_offer d st) = sockets st"
    by (simp add: send_sdp_offer_def addMessage_def)
next
  assume "encode_description d = None"
  then show "messages (send_sdp_offer d st) =
        messages st @
          [\<lparr>msg_role = System, msg_text = js ''WebRTC setup failed'', msg_item_id = None\<rparr>]"
    by (simp add: send_sdp_offer_def addMessage_def)
next
  assume "encode_description d = Some e"
  then have "atob e = Some (json_stringify_description d)"
    unfolding encode_description_def by (rule atob_btoa)
  then show "decode_description e = Some d" by (rule decode_stringify)
next
  assume "\<forall>c \<in> set (sd_sdp d). c \<le> 255"
  then have "\<forall>c \<in> set (json_stringify_description d). c \<le> 255" by (rule stringify_latin1)
  then have enc: "encode_description d = btoa (json_stringify_description d)"
    and "btoa (json_stringify_description d) = Some (b64_encode (json_stringify_description d))"
    by (auto simp: encode_description_def btoa_def list_ex_iff)
  moreover from this(2) have "atob (b64_encode (json_stringify_description d)) =
      Some (json_stringify_description d)"
    by (rule atob_btoa)
  ultimately show "sdp_roundtrip d = Some d"
    by (simp add: sdp_roundtrip_def decode_stringify)
next
  assume "\<exists>c \<in> set (sd_sdp d). 255 < c \<and> \<not> is_high_surrogate c \<and> \<not> is_low_surrogate c"
  then obtain c where "c \<in> set (sd_sdp d)" "255 < c" "\<not> is_high_surrogate c"
    "\<not> is_low_surrogate c" by blast
  then have "c \<in> set (quote_chars (sd_sdp d))" by (rule quote_chars_keeps)
  then have "c \<in> set (json_stringify_description d)"
    unfolding stringify_shape by simp
  with \<open>255 < c\<close> show "encode_description d = None"
    by (auto simp: encode_description_def btoa_def list_ex_iff)
qed

text \<open>
  The claim as stated, for every description, fails on a description whose \<open>sdp\<close> holds the
  code unit U+0100: its encoding throws, so the round trip does not yield it.
\<close>

theorem sdp_exchange_counterexample:
  "sdp_roundtrip \<lparr>sd_type = Offer, sd_sdp = [256]\<rparr> \<noteq> Some \<lparr>sd_type = Offer, sd_sdp = [256]\<rparr>"
  by (simp add: sdp_roundtrip_def encode_description_def btoa_def json_stringify_description_def
      quote_json_string_def is_high_surrogate_def is_low_surrogate_def js_def)

theorem sdp_exchange_roundtrip_witness:
  "list_all (\<lambda>c. c \<le> 255) (sd_sdp \<lparr>sd_type = Answer, sd_sdp = [118, 61, 48, 13, 10, 34, 233]\<rparr>) \<and>
   encode_description \<lparr>sd_type = Answer, sd_sdp = [118, 61, 48, 13, 10, 34, 233]\<rparr> =
     Some (js ''eyJ0eXBlIjoiYW5zd2VyIiwic2RwIjoidj0wXHJcblwi6SJ9'') \<and>
   decode_description (js ''eyJ0eXBlIjoiYW5zd2VyIiwic2RwIjoidj0wXHJcblwi6SJ9'') =
     Some \<lparr>sd_type = Answer, sd_sdp = [118, 61, 48, 13, 10, 34, 233]\<rparr> \<and>
   sdp_roundtrip \<lparr>sd_type = Answer, sd_sdp = [118, 61, 48, 13, 10, 34, 233]\<rparr> =
     Some \<lparr>sd_type = Answer, sd_sdp = [118, 61, 48, 13, 10, 34, 233]\<rparr> \<and>
   26085 \<in> set (sd_sdp \<lparr>sd_type = Offer, sd_sdp = [118, 26085]\<rparr>) \<and>
   (255::nat) < 26085 \<and> \<not> is_high_surrogate 26085 \<and> \<not> is_low_surrogate 26085 \<and>
   encode_description \<lparr>sd_type = Offer, sd_sdp = [118, 26085]\<rparr> = None \<and>
   sockets (send_sdp_offer \<lparr>sd_type = Offer, sd_sdp = [118, 26085]\<rparr>
              ((initial_app sample_page)\<lparr>peerConnection := True\<rparr>)) = [] \<and>
   messages (send_sdp_offer \<lparr>sd_type = Offer, sd_sdp = [118, 26085]\<rparr>
               ((initial_app sample_page)\<lparr>peerConnection := True\<rparr>)) =
     [\<lparr>msg_role = System, msg_text = js ''WebRTC setup failed'', msg_item_id = None\<rparr>]"
proof -
  let ?d = "\<lparr>sd_type = Answer, sd_sdp = [118, 61, 48, 13, 10, 34, 233]\<rparr>"
  let ?d2 = "\<lparr>sd_type = Offer, sd_sdp = [118, 26085]\<rparr>"
  have a: "encode_description ?d = Some (js ''eyJ0eXBlIjoiYW5zd2VyIiwic2RwIjoidj0wXHJcblwi6SJ9'')"
    by (simp add: encode_description_def btoa_def json_stringify_description_def
        quote_json_string_def is_high_surrogate_def is_low_surrogate_def js_def b64_char_def)
  have b: "\<exists>c \<in> set (sd_sdp ?d2). 255 < c \<and> \<not> is_high_surrogate c \<and> \<not> is_low_surrogate c"
    by (simp add: is_high_surrogate_def is_low_surrogate_def)
  have c: "\<forall>c \<in> set (sd_sdp ?d). c \<le> 255" by simp
  let ?st = "(initial_app sample_page)\<lparr>peerConnection := True\<rparr>"
  note t2 = sdp_exchange_roundtrip [of ?d2 "[]" ?st]
  from t2 b have n: "encode_description ?d2 = None" by blast
  from t2 n have "sockets (send_sdp_offer ?d2 ?st) = sockets ?st \<and>
      messages (send_sdp_offer ?d2 ?st) =
        messages ?st @
          [\<lparr>msg_role = System, msg_text = js ''WebRTC setup failed'', msg_item_id = None\<rparr>]"
    by blast
  then have m: "sockets (send_sdp_offer ?d2 ?st) = [] \<and>
      messages (send_sdp_offer ?d2 ?st) =
        [\<lparr>msg_role = System, msg_text = js ''WebRTC setup failed'', msg_item_id = None\<rparr>]"
    by (simp add: initial_app_def)
  from sdp_exchange_roundtrip [of ?d "js ''eyJ0eXBlIjoiYW5zd2VyIiwic2RwIjoidj0wXHJcblwi6SJ9''"
      "initial_app sample_page"] a c
  have r: "decode_description (js ''eyJ0eXBlIjoiYW5zd2VyIiwic2RwIjoidj0wXHJcblwi6SJ9'') = Some ?d \<and>
      sdp_roundtrip ?d = Some ?d"
    by (simp add: list_all_iff)
  from a c n m r show ?thesis
    by (simp add: is_high_surrogate_def is_low_surrogate_def)
qed

end
